theory Spec2Isabelle
  imports Main
begin

section \<open>Python values used by the agent: exceptions and floats\<close>

text \<open>
  The code only ever looks at the text of an exception (\<^verbatim>\<open>str(e)\<close>), so an exception is
  modelled by that text. A fallible computation returns \<open>exn + 'a\<close>, \<open>Inl\<close> for a raise.
\<close>

type_synonym exn = string

definition OverflowError :: exn where
  "OverflowError = ''integer division result too large for a float''"

definition ZeroDivisionError :: exn where
  "ZeroDivisionError = ''division by zero''"

subsection \<open>IEEE 754 binary64, the Python float\<close>

text \<open>
  A finite float \<open>Fin m e\<close> is the number \<open>m * 2 ^ e\<close>, kept in lowest terms (\<open>m\<close> odd,
  or \<open>Fin 0 0\<close> for zero), so that two finite floats are the same number exactly when they
  are the same term. The two zeros of IEEE 754 are identified (Python's \<^verbatim>\<open>==\<close> does not
  tell them apart). Rounding is to nearest, ties to even, with 53 significant bits, the
  subnormal range below \<open>2 ^ - 1022\<close> and overflow from \<open>2 ^ 1024\<close> on.
\<close>

datatype pyfloat = Fin int int | PInf | NInf | NaN

fun bit_length :: "nat \<Rightarrow> nat" where
  "bit_length n = (if n = 0 then 0 else Suc (bit_length (n div 2)))"

fun trailing_zeros :: "nat \<Rightarrow> nat" where
  "trailing_zeros n = (if n = 0 \<or> odd n then 0 else Suc (trailing_zeros (n div 2)))"

declare bit_length.simps [simp del] trailing_zeros.simps [simp del]

definition normalise :: "int \<Rightarrow> int \<Rightarrow> pyfloat" where
  "normalise m e =
     (if m = 0 then Fin 0 0
      else let t = trailing_zeros (nat \<bar>m\<bar>) in Fin (m div 2 ^ t) (e + int t))"

text \<open>\<open>floor_log2 p q\<close> is the integer part of the binary logarithm of \<open>p / q\<close>.\<close>

definition floor_log2 :: "nat \<Rightarrow> nat \<Rightarrow> int" where
  "floor_log2 p q =
     (let d = int (bit_length p) - int (bit_length q)
      in if q * 2 ^ nat d \<le> p * 2 ^ nat (- d) then d else d - 1)"

text \<open>\<open>round_half_even n d\<close> is the integer nearest to \<open>n / d\<close>, the even one on a tie.\<close>

definition round_half_even :: "int \<Rightarrow> int \<Rightarrow> int" where
  "round_half_even n d =
     (let f = n div d; r = n mod d
      in if 2 * r < d then f else if d < 2 * r then f + 1 else if even f then f else f + 1)"

text \<open>\<open>binary64_round p q\<close> is the float nearest to the fraction \<open>p / q\<close>, for \<open>0 < q\<close>.\<close>

definition binary64_round :: "int \<Rightarrow> int \<Rightarrow> pyfloat" where
  "binary64_round p q =
     (if p = 0 then Fin 0 0
      else let e = max (floor_log2 (nat \<bar>p\<bar>) (nat q) - 52) (- 1074);
               m = round_half_even (p * 2 ^ nat (- e)) (q * 2 ^ nat e)
           in if 2 ^ 1024 \<le> \<bar>m\<bar> * 2 ^ nat e then (if 0 < m then PInf else NInf)
              else normalise m e)"

text \<open>The float nearest to \<open>m * 2 ^ e\<close>.\<close>

definition dyadic_round :: "int \<Rightarrow> int \<Rightarrow> pyfloat" where
  "dyadic_round m e = binary64_round (m * 2 ^ nat e) (2 ^ nat (- e))"

text \<open>A decimal literal of the source, such as \<^verbatim>\<open>0.15\<close>, read as the fraction \<open>15 / 100\<close>.\<close>

definition float_literal :: "int \<Rightarrow> int \<Rightarrow> pyfloat" where
  "float_literal p q = binary64_round p q"

fun float_neg :: "pyfloat \<Rightarrow> pyfloat" where
  "float_neg (Fin m e) = Fin (- m) e"
| "float_neg PInf = NInf"
| "float_neg NInf = PInf"
| "float_neg NaN = NaN"

fun float_add :: "pyfloat \<Rightarrow> pyfloat \<Rightarrow> pyfloat" where
  "float_add (Fin m1 e1) (Fin m2 e2) =
     (let e = min e1 e2 in dyadic_round (m1 * 2 ^ nat (e1 - e) + m2 * 2 ^ nat (e2 - e)) e)"
| "float_add NaN y = NaN"
| "float_add x NaN = NaN"
| "float_add PInf NInf = NaN"
| "float_add NInf PInf = NaN"
| "float_add PInf y = PInf"
| "float_add NInf y = NInf"
| "float_add (Fin m e) y = y"

fun float_mul :: "pyfloat \<Rightarrow> pyfloat \<Rightarrow> pyfloat" where
  "float_mul (Fin m1 e1) (Fin m2 e2) = dyadic_round (m1 * m2) (e1 + e2)"
| "float_mul NaN y = NaN"
| "float_mul x NaN = NaN"
| "float_mul (Fin m e) y = (if m = 0 then NaN else if 0 < m then y else float_neg y)"
| "float_mul x (Fin m e) = (if m = 0 then NaN else if 0 < m then x else float_neg x)"
| "float_mul PInf y = y"
| "float_mul NInf y = float_neg y"

text \<open>
  Python's \<^verbatim>\<open>a / b\<close> on two ints: the correctly rounded quotient, \<^verbatim>\<open>ZeroDivisionError\<close>
  for \<open>b = 0\<close> and \<^verbatim>\<open>OverflowError\<close> when the quotient is too large for a float.
\<close>

definition int_truediv :: "int \<Rightarrow> int \<Rightarrow> exn + pyfloat" where
  "int_truediv a b =
     (if b = 0 then Inl ZeroDivisionError
      else case binary64_round (a * sgn b) \<bar>b\<bar> of
             Fin m e \<Rightarrow> Inr (Fin m e)
           | _ \<Rightarrow> Inl OverflowError)"

text \<open>Python's \<^verbatim>\<open>==\<close> on floats: a NaN equals nothing, itself included.\<close>

definition float_eq :: "pyfloat \<Rightarrow> pyfloat \<Rightarrow> bool" where
  "float_eq x y = (x \<noteq> NaN \<and> y \<noteq> NaN \<and> x = y)"

text \<open>Summation in list order, starting from \<^verbatim>\<open>0.0\<close>.\<close>

definition float_sum :: "pyfloat list \<Rightarrow> pyfloat" where
  "float_sum xs = foldl float_add (Fin 0 0) xs"

section \<open>The model's responses\<close>

text \<open>
  What the gateway returns (\<^verbatim>\<open>litellm.acompletion\<close>). An attribute the code reads with
  \<^verbatim>\<open>getattr(obj, name, default)\<close> or guards with \<^verbatim>\<open>hasattr\<close> is an option, \<open>None\<close> when
  the attribute is absent (or, for \<open>usage\<close>, \<open>content\<close> and \<open>tool_calls\<close>, is Python's
  \<^verbatim>\<open>None\<close>). \<open>content\<close> and \<open>tool_calls\<close> are those of \<^verbatim>\<open>response.choices[0].message\<close>.
\<close>

record usage =
  prompt_tokens :: "int option"
  completion_tokens :: "int option"

record tool_call =
  call_id :: string
  function_name :: string
  function_arguments :: string

record response =
  resp_usage :: "usage option"
  resp_model :: "string option"
  content :: "string option"
  tool_calls :: "tool_call list option"

definition getattr :: "'a option \<Rightarrow> 'a \<Rightarrow> 'a" where
  "getattr attr dflt = (case attr of None \<Rightarrow> dflt | Some v \<Rightarrow> v)"

section \<open>The cost tracker (\<^verbatim>\<open>cost_tracker.py\<close>)\<close>

record StepCost =
  step_number :: int
  model :: string
  input_tokens :: int
  output_tokens :: int
  cost_usd :: pyfloat
  is_tool_call :: bool

record QueryCost =
  query :: string
  steps :: "StepCost list"
  total_cost_usd :: pyfloat
  total_input_tokens :: int
  total_output_tokens :: int

definition new_QueryCost :: "string \<Rightarrow> QueryCost" where
  "new_QueryCost q =
     \<lparr>query = q, steps = [], total_cost_usd = Fin 0 0,
      total_input_tokens = 0, total_output_tokens = 0\<rparr>"

definition add_step :: "QueryCost \<Rightarrow> StepCost \<Rightarrow> QueryCost" where
  "add_step self step =
     self\<lparr>steps := steps self @ [step],
          total_cost_usd := float_add (total_cost_usd self) (cost_usd step),
          total_input_tokens := total_input_tokens self + input_tokens step,
          total_output_tokens := total_output_tokens self + output_tokens step\<rparr>"

record CostTracker =
  queries :: "QueryCost list"
  current_query :: "QueryCost option"

definition new_CostTracker :: CostTracker where
  "new_CostTracker = \<lparr>queries = [], current_query = None\<rparr>"

definition start_query :: "string \<Rightarrow> CostTracker \<Rightarrow> CostTracker" where
  "start_query q self = self\<lparr>current_query := Some (new_QueryCost q)\<rparr>"

text \<open>
  The fallback pricing, \<^verbatim>\<open>(input_tokens / 1_000_000) * 0.15 + (output_tokens / 1_000_000) * 0.60\<close>,
  in the order Python evaluates it. Only the two divisions can raise.
\<close>

definition fallback_cost :: "int \<Rightarrow> int \<Rightarrow> exn + pyfloat" where
  "fallback_cost inp out =
     (case int_truediv inp 1000000 of
        Inl e \<Rightarrow> Inl e
      | Inr a \<Rightarrow>
          (let input_cost = float_mul a (float_literal 15 100)
           in case int_truediv out 1000000 of
                Inl e \<Rightarrow> Inl e
              | Inr b \<Rightarrow>
                  (let output_cost = float_mul b (float_literal 60 100)
                   in Inr (float_add input_cost output_cost))))"

definition log_completion ::
  "int \<Rightarrow> response \<Rightarrow> bool \<Rightarrow> CostTracker \<Rightarrow> exn + CostTracker" where
  "log_completion n resp is_tool self =
     (case current_query self of
        None \<Rightarrow> Inr self
      | Some q \<Rightarrow>
          (case resp_usage resp of
             None \<Rightarrow> Inr self
           | Some u \<Rightarrow>
               (let inp = getattr (prompt_tokens u) 0;
                    out = getattr (completion_tokens u) 0;
                    mdl = getattr (resp_model resp) ''gpt-4o-mini''
                in case fallback_cost inp out of
                     Inl e \<Rightarrow> Inl e
                   | Inr total_cost \<Rightarrow>
                       Inr (self\<lparr>current_query := Some (add_step q
                              \<lparr>step_number = n, model = mdl, input_tokens = inp,
                               output_tokens = out, cost_usd = total_cost,
                               is_tool_call = is_tool\<rparr>)\<rparr>))))"

definition end_query :: "CostTracker \<Rightarrow> CostTracker" where
  "end_query self =
     (case current_query self of
        None \<Rightarrow> self
      | Some q \<Rightarrow> self\<lparr>queries := queries self @ [q], current_query := None\<rparr>)"

text \<open>
  A caller that makes one \<^verbatim>\<open>log_completion\<close> call after another on the same tracker and
  goes on after a call that raised; a call that raises leaves the tracker as it was.
\<close>

type_synonym completion_call = "int \<times> response \<times> bool"

definition log_call :: "CostTracker \<Rightarrow> completion_call \<Rightarrow> CostTracker" where
  "log_call self c =
     (case c of (n, resp, is_tool) \<Rightarrow>
        (case log_completion n resp is_tool self of Inl e \<Rightarrow> self | Inr self' \<Rightarrow> self'))"

definition log_completions :: "completion_call list \<Rightarrow> CostTracker \<Rightarrow> CostTracker" where
  "log_completions cs self = foldl log_call self cs"

text \<open>The ledger's running totals against the sums over its recorded steps.\<close>

definition totals_match :: "QueryCost \<Rightarrow> bool" where
  "totals_match l =
     (total_cost_usd l = float_sum (map cost_usd (steps l)) \<and>
      total_input_tokens l = sum_list (map input_tokens (steps l)) \<and>
      total_output_tokens l = sum_list (map output_tokens (steps l)))"

section \<open>The agent loop (\<^verbatim>\<open>observable_agent.py\<close>)\<close>

subsection \<open>Conversation, loop detector, tracer, tools\<close>

text \<open>The message dicts the run appends to \<^verbatim>\<open>messages\<close>, one constructor per role.\<close>

datatype msg =
    System_message string
  | User_message string
  | Assistant_message "string option" "tool_call list option"
  | Tool_message (tool_call_id: string) (name: string) (tool_content: string)

text \<open>
  Modelled from the spec: the loop detector's result, \<^verbatim>\<open>{is_looping, strategy, message}\<close>
  (\<^verbatim>\<open>loop_detector.py\<close> is not among the sources).
\<close>

record LoopResult =
  is_looping :: bool
  strategy :: string
  message :: string

text \<open>
  Modelled from the spec: the tracer's records (\<^verbatim>\<open>tracer.py\<close> is not among the sources),
  with the fields the run sets. Durations are wall-clock readings and are left out.
  \<^verbatim>\<open>tool_input\<close> is \<^verbatim>\<open>json.loads(tool_input_str) if tool_input_str else {}\<close>.
\<close>

datatype 'j tool_input = Empty_dict | Parsed 'j

record 'j ToolCallRecord =
  tool_name :: string
  tool_input :: "'j tool_input"
  tool_output :: string

record 'j AgentStep =
  as_step_number :: int
  reasoning :: "string option"
  as_tool_calls :: "'j ToolCallRecord list"
  as_input_tokens :: int
  as_output_tokens :: int
  as_cost_usd :: pyfloat

text \<open>What the tracer has been told, in order.\<close>

datatype 'j trace_event =
    Start_trace string string string
  | Log_step string "'j AgentStep"
  | End_trace string string string "string option"

text \<open>
  The collaborators whose code is outside the sources, as parameters of the run:
  \<^item> \<open>acompletion n model messages tools tool_choice\<close>: the gateway's answer to the call made
    in step \<open>n\<close>, a response or a raised fault;
  \<^item> \<open>json_loads\<close>: Python's \<^verbatim>\<open>json.loads\<close> on an argument text, a value of type \<open>'j\<close> or a
    raised \<^verbatim>\<open>JSONDecodeError\<close>;
  \<^item> \<open>get_tool\<close>: the registry; a tool maps its parsed arguments to \<^verbatim>\<open>str(tool.execute(**args))\<close>
    or to the exception it raises;
  \<^item> \<open>check_tool_call\<close> and \<open>check_output_stagnation\<close>: the loop detector, a state machine
    over a state of type \<open>'d\<close>;
  \<^item> \<open>start_trace\<close>: the trace id the tracer hands out.
\<close>

record ('j, 'd) collaborators =
  acompletion ::
    "int \<Rightarrow> string \<Rightarrow> msg list \<Rightarrow> string list option \<Rightarrow> string option \<Rightarrow> exn + response"
  json_loads :: "string \<Rightarrow> exn + 'j"
  get_tool :: "string \<Rightarrow> ('j \<Rightarrow> exn + string) option"
  check_tool_call :: "'d \<Rightarrow> string \<Rightarrow> string \<Rightarrow> LoopResult \<times> 'd"
  check_output_stagnation :: "'d \<Rightarrow> string \<Rightarrow> LoopResult \<times> 'd"
  start_trace :: "string \<Rightarrow> string \<Rightarrow> string \<Rightarrow> string"

text \<open>
  The agent's configuration (\<^verbatim>\<open>__init__\<close>); \<open>tools\<close> holds the tools' schemas
  (\<^verbatim>\<open>tool.to_openai_schema()\<close>).
\<close>

record ObservableAgent =
  agent_model :: string
  max_steps :: int
  agent_name :: string
  system_prompt :: "string option"
  tools :: "string list"

text \<open>
  The mutable state of a run: the agent's loop detector, cost tracker and tracer, the
  locals \<^verbatim>\<open>messages\<close> and \<^verbatim>\<open>final_answer\<close>, and \<open>registry_log\<close>, the tool calls handed to
  \<^verbatim>\<open>_execute_tool\<close> (each one a lookup in the registry), in order.
\<close>

record ('j, 'd) run_state =
  messages :: "msg list"
  final_answer :: "string option"
  loop_detector :: 'd
  cost_tracker :: CostTracker
  tracer :: "'j trace_event list"
  registry_log :: "tool_call list"

text \<open>
  How an iteration of the \<^verbatim>\<open>for\<close> loop ends: it falls through to the next one, leaves the
  loop by the \<^verbatim>\<open>break\<close> after a final answer or by the \<^verbatim>\<open>break\<close> on stagnation, or raises.
  For the whole loop, \<open>Continue\<close> says that the range was exhausted.
\<close>

datatype signal = Continue | Break_answer | Break_stagnation | Raise exn

subsection \<open>Python's \<^verbatim>\<open>str\<close> on an int\<close>

definition digit_char :: "nat \<Rightarrow> char" where
  "digit_char d = ''0123456789'' ! d"

fun str_nat :: "nat \<Rightarrow> string" where
  "str_nat n = (if n < 10 then [digit_char n] else str_nat (n div 10) @ [digit_char (n mod 10)])"

declare str_nat.simps [simp del]

definition str_int :: "int \<Rightarrow> string" where
  "str_int i = (if i < 0 then ''-'' @ str_nat (nat (- i)) else str_nat (nat i))"

subsection \<open>\<^verbatim>\<open>_execute_tool\<close>\<close>

definition apostrophe :: string where
  "apostrophe = [CHR 0x27]"

definition execute_tool ::
  "('j, 'd) collaborators \<Rightarrow> tool_call \<Rightarrow> string \<Rightarrow> string \<Rightarrow> string \<times> string \<times> string" where
  "execute_tool env tc tool_nm tool_input_str =
     (let result =
        (case get_tool env tool_nm of
           None \<Rightarrow> ''Error: Tool '' @ apostrophe @ tool_nm @ apostrophe @ '' not found''
         | Some tool \<Rightarrow>
             (case json_loads env tool_input_str of
                Inl e \<Rightarrow> ''Error executing '' @ tool_nm @ '': '' @ e
              | Inr args \<Rightarrow>
                  (case tool args of
                     Inl e \<Rightarrow> ''Error executing '' @ tool_nm @ '': '' @ e
                   | Inr r \<Rightarrow> r)))
      in (tool_nm, tool_input_str, result))"

subsection \<open>\<^verbatim>\<open>run\<close>: the loop over the requested tool calls\<close>

text \<open>The warning sign of the source, U+26A0 U+FE0F, in UTF-8.\<close>

definition warning_sign :: string where
  "warning_sign = [CHR 0xE2, CHR 0x9A, CHR 0xA0, CHR 0xEF, CHR 0xB8, CHR 0x8F]"

definition loop_warning :: "tool_call \<Rightarrow> LoopResult \<Rightarrow> msg" where
  "loop_warning tc loop_result =
     Tool_message (call_id tc) (function_name tc)
       (warning_sign @ '' LOOP DETECTED: '' @ message loop_result)"

text \<open>
  Lines 118 to 142: each requested call is shown to the loop detector; a flagged call gets
  its warning appended to \<^verbatim>\<open>messages\<close> and is skipped, any other call is appended to
  \<^verbatim>\<open>tool_call_tasks\<close>.
\<close>

fun dispatch ::
  "('j, 'd) collaborators \<Rightarrow> tool_call list \<Rightarrow> (tool_call \<times> string \<times> string) list \<Rightarrow>
   ('j, 'd) run_state \<Rightarrow> (tool_call \<times> string \<times> string) list \<times> ('j, 'd) run_state" where
  "dispatch env [] tool_call_tasks s = (tool_call_tasks, s)"
| "dispatch env (tc # tcs) tool_call_tasks s =
     (let tool_nm = function_name tc;
          tool_input_str = function_arguments tc;
          (loop_result, d) = check_tool_call env (loop_detector s) tool_nm tool_input_str;
          s1 = s\<lparr>loop_detector := d\<rparr>
      in if is_looping loop_result
         then dispatch env tcs tool_call_tasks
                (s1\<lparr>messages := messages s1 @ [loop_warning tc loop_result]\<rparr>)
         else dispatch env tcs (tool_call_tasks @ [(tc, tool_nm, tool_input_str)]) s1)"

text \<open>
  Line 145: \<^verbatim>\<open>asyncio.gather\<close> runs the tasks and returns their results in the order of
  the tasks. \<^verbatim>\<open>_execute_tool\<close> awaits nothing and catches every exception, so the tasks run
  one after the other and none of them raises.
\<close>

definition gather ::
  "('j, 'd) collaborators \<Rightarrow> (tool_call \<times> string \<times> string) list \<Rightarrow> ('j, 'd) run_state \<Rightarrow>
   (string \<times> string \<times> string) list \<times> ('j, 'd) run_state" where
  "gather env tool_call_tasks s =
     (map (\<lambda>(tc, tool_nm, tool_input_str). execute_tool env tc tool_nm tool_input_str)
        tool_call_tasks,
      s\<lparr>registry_log := registry_log s @ map fst tool_call_tasks\<rparr>)"

text \<open>
  Lines 148 to 161, the loop over \<^verbatim>\<open>zip(tool_calls, tool_results)\<close>: a \<^verbatim>\<open>ToolCallRecord\<close>
  is appended to the step and a tool message to \<^verbatim>\<open>messages\<close>. The \<^verbatim>\<open>json.loads\<close> of line
  151 is not inside any \<^verbatim>\<open>try\<close> of its own.
\<close>

fun record_results ::
  "('j, 'd) collaborators \<Rightarrow> (tool_call \<times> string \<times> string \<times> string) list \<Rightarrow> 'j AgentStep \<Rightarrow>
   ('j, 'd) run_state \<Rightarrow> signal \<times> 'j AgentStep \<times> ('j, 'd) run_state" where
  "record_results env [] step s = (Continue, step, s)"
| "record_results env ((tc, tool_nm, tool_input_str, tool_out) # rest) step s =
     (case (if tool_input_str \<noteq> [] then map_sum id Parsed (json_loads env tool_input_str)
            else Inr Empty_dict) of
        Inl e \<Rightarrow> (Raise e, step, s)
      | Inr parsed \<Rightarrow>
          record_results env rest
            (step\<lparr>as_tool_calls := as_tool_calls step @
               [\<lparr>tool_name = tool_nm, tool_input = parsed, tool_output = tool_out\<rparr>]\<rparr>)
            (s\<lparr>messages := messages s @ [Tool_message (call_id tc) tool_nm tool_out]\<rparr>))"

text \<open>Lines 167 to 172: stagnation is checked on a non-empty reasoning text only.\<close>

definition check_stagnation ::
  "('j, 'd) collaborators \<Rightarrow> string option \<Rightarrow> ('j, 'd) run_state \<Rightarrow> signal \<times> ('j, 'd) run_state" where
  "check_stagnation env rsn s =
     (case rsn of
        None \<Rightarrow> (Continue, s)
      | Some text \<Rightarrow>
          if text = [] then (Continue, s)
          else (let (stagnation, d) = check_output_stagnation env (loop_detector s) text;
                    s1 = s\<lparr>loop_detector := d\<rparr>
                in if is_looping stagnation
                   then (Break_stagnation,
                         s1\<lparr>final_answer :=
                              Some (''Agent stopped due to stagnation: '' @ message stagnation)\<rparr>)
                   else (Continue, s1)))"

text \<open>Lines 116 to 172: the part of an iteration that handles a non-empty list of tool calls.\<close>

definition handle_tool_calls ::
  "('j, 'd) collaborators \<Rightarrow> string \<Rightarrow> tool_call list \<Rightarrow> 'j AgentStep \<Rightarrow> ('j, 'd) run_state \<Rightarrow>
   signal \<times> ('j, 'd) run_state" where
  "handle_tool_calls env trace_id tcs step s =
     (let (tool_call_tasks, s1) = dispatch env tcs [] s;
          (tool_results, s2) = gather env tool_call_tasks s1
      in case record_results env (zip tcs tool_results) step s2 of
           (Raise e, step', s3) \<Rightarrow> (Raise e, s3)
         | (_, step', s3) \<Rightarrow>
             check_stagnation env (reasoning step')
               (s3\<lparr>tracer := tracer s3 @ [Log_step trace_id step']\<rparr>))"

text \<open>
  Lines 83 to 98: the step record and its usage statistics. Without usage the counts are
  those of \<^verbatim>\<open>getattr(None, name, 0)\<close>.
\<close>

definition new_AgentStep :: "int \<Rightarrow> response \<Rightarrow> exn + 'j AgentStep" where
  "new_AgentStep n resp =
     (let inp = (case resp_usage resp of None \<Rightarrow> 0 | Some u \<Rightarrow> getattr (prompt_tokens u) 0);
          out = (case resp_usage resp of None \<Rightarrow> 0 | Some u \<Rightarrow> getattr (completion_tokens u) 0)
      in case fallback_cost inp out of
           Inl e \<Rightarrow> Inl e
         | Inr cost \<Rightarrow>
             Inr \<lparr>as_step_number = n, reasoning = content resp, as_tool_calls = [],
                  as_input_tokens = inp, as_output_tokens = out, as_cost_usd = cost\<rparr>)"

text \<open>Python's truth value of \<^verbatim>\<open>tool_calls\<close>: \<^verbatim>\<open>None\<close> and the empty list are false.\<close>

definition truthy_list :: "'a list option \<Rightarrow> 'a list option" where
  "truthy_list xs = (case xs of Some (y # ys) \<Rightarrow> Some (y # ys) | _ \<Rightarrow> None)"

text \<open>
  Lines 65 to 72: the call of the gateway, with the tool schemas and \<^verbatim>\<open>"auto"\<close> only when
  the agent has tools.
\<close>

definition call_llm ::
  "('j, 'd) collaborators \<Rightarrow> ObservableAgent \<Rightarrow> int \<Rightarrow> msg list \<Rightarrow> exn + response" where
  "call_llm env self n msgs =
     (let tool_schemas = tools self
      in acompletion env n (agent_model self) msgs
           (if tool_schemas \<noteq> [] then Some tool_schemas else None)
           (if tool_schemas \<noteq> [] then Some ''auto'' else None))"

text \<open>Lines 62 to 172: one iteration of the \<^verbatim>\<open>for\<close> loop.\<close>

definition agent_step ::
  "('j, 'd) collaborators \<Rightarrow> ObservableAgent \<Rightarrow> string \<Rightarrow> int \<Rightarrow> ('j, 'd) run_state \<Rightarrow>
   signal \<times> ('j, 'd) run_state" where
  "agent_step env self trace_id n s =
     (case call_llm env self n (messages s) of
        Inl e \<Rightarrow> (Raise e, s)
      | Inr resp \<Rightarrow>
          (case log_completion n resp False (cost_tracker s) of
             Inl e \<Rightarrow> (Raise e, s)
           | Inr ct \<Rightarrow>
               (let s1 = s\<lparr>cost_tracker := ct\<rparr>
                in case new_AgentStep n resp of
                     Inl e \<Rightarrow> (Raise e, s1)
                   | Inr step \<Rightarrow>
                       (let s2 = s1\<lparr>messages := messages s1 @
                                  [Assistant_message (content resp)
                                     (truthy_list (tool_calls resp))]\<rparr>
                        in case truthy_list (tool_calls resp) of
                             None \<Rightarrow>
                               (Break_answer,
                                s2\<lparr>final_answer := content resp,
                                   tracer := tracer s2 @ [Log_step trace_id step]\<rparr>)
                           | Some tcs \<Rightarrow> handle_tool_calls env trace_id tcs step s2))))"

text \<open>
  Line 61, \<^verbatim>\<open>for step_number in range(1, self.max_steps + 1)\<close>: the loop over the list of
  step numbers. It returns how it ended, the last value of \<^verbatim>\<open>step_number\<close> and the state.
\<close>

fun for_steps ::
  "('j, 'd) collaborators \<Rightarrow> ObservableAgent \<Rightarrow> string \<Rightarrow> int list \<Rightarrow> int \<Rightarrow> ('j, 'd) run_state \<Rightarrow>
   signal \<times> int \<times> ('j, 'd) run_state" where
  "for_steps env self trace_id [] step_no s = (Continue, step_no, s)"
| "for_steps env self trace_id (n # ns) step_no s =
     (case agent_step env self trace_id n s of
        (Continue, s') \<Rightarrow> for_steps env self trace_id ns n s'
      | (sig, s') \<Rightarrow> (sig, n, s'))"

subsection \<open>\<^verbatim>\<open>run\<close>\<close>

text \<open>The result dict: its keys in order, each with a text or an integer.\<close>

datatype pyvalue = Text string | Number int

type_synonym result = "(string \<times> pyvalue) list"

definition initial_messages :: "ObservableAgent \<Rightarrow> string \<Rightarrow> msg list" where
  "initial_messages self user_query =
     (case system_prompt self of
        None \<Rightarrow> []
      | Some p \<Rightarrow> if p = [] then [] else [System_message p]) @ [User_message user_query]"

definition max_steps_answer :: "ObservableAgent \<Rightarrow> string" where
  "max_steps_answer self =
     ''Agent reached max steps ('' @ str_int (max_steps self) @
     '') without completing the task.''"

text \<open>
  The state in which the loop starts (lines 48 to 57), the loop (lines 59 to 172), and
  the two ways \<^verbatim>\<open>run\<close> returns (lines 174 to 198). \<open>run\<close> takes the agent's state before
  the call and returns the result dict with the state after it.
\<close>

definition start_run ::
  "('j, 'd) collaborators \<Rightarrow> ObservableAgent \<Rightarrow> string \<Rightarrow> ('j, 'd) run_state \<Rightarrow>
   ('j, 'd) run_state" where
  "start_run env self user_query s =
     s\<lparr>tracer := tracer s @ [Start_trace (agent_name self) user_query (agent_model self)],
       cost_tracker := start_query user_query (cost_tracker s),
       messages := initial_messages self user_query,
       final_answer := None\<rparr>"

definition run_loop ::
  "('j, 'd) collaborators \<Rightarrow> ObservableAgent \<Rightarrow> string \<Rightarrow> ('j, 'd) run_state \<Rightarrow>
   signal \<times> int \<times> ('j, 'd) run_state" where
  "run_loop env self user_query s =
     for_steps env self (start_trace env (agent_name self) user_query (agent_model self))
       [1..max_steps self] 0 (start_run env self user_query s)"

definition run ::
  "('j, 'd) collaborators \<Rightarrow> ObservableAgent \<Rightarrow> string \<Rightarrow> ('j, 'd) run_state \<Rightarrow>
   result \<times> ('j, 'd) run_state" where
  "run env self user_query s =
     (let trace_id = start_trace env (agent_name self) user_query (agent_model self)
      in case run_loop env self user_query s of
           (Raise e, step_no, s1) \<Rightarrow>
             ([(''answer'', Text (''Error: '' @ e)),
               (''trace_id'', Text trace_id),
               (''status'', Text ''error'')],
              s1\<lparr>tracer := tracer s1 @ [End_trace trace_id [] ''error'' (Some e)],
                 cost_tracker := end_query (cost_tracker s1)\<rparr>)
         | (sig, step_no, s1) \<Rightarrow>
             (let answer = (case final_answer s1 of
                              None \<Rightarrow> max_steps_answer self
                            | Some a \<Rightarrow> a)
              in ([(''answer'', Text answer),
                   (''trace_id'', Text trace_id),
                   (''steps'', Number step_no),
                   (''status'', Text ''completed'')],
                  s1\<lparr>final_answer := Some answer,
                     tracer := tracer s1 @ [End_trace trace_id answer ''completed'' None],
                     cost_tracker := end_query (cost_tracker s1)\<rparr>)))"

section \<open>Vocabulary of the statements\<close>

text \<open>
  What the loop detector answers for each requested call of a step, in request order,
  starting from the detector state \<open>d\<close>.
\<close>

fun verdicts :: "('j, 'd) collaborators \<Rightarrow> 'd \<Rightarrow> tool_call list \<Rightarrow> LoopResult list" where
  "verdicts env d [] = []"
| "verdicts env d (tc # tcs) =
     (let (loop_result, d') = check_tool_call env d (function_name tc) (function_arguments tc)
      in loop_result # verdicts env d' tcs)"

definition flagged :: "tool_call \<times> LoopResult \<Rightarrow> bool" where
  "flagged p = is_looping (snd p)"

definition task_of :: "tool_call \<times> LoopResult \<Rightarrow> tool_call \<times> string \<times> string" where
  "task_of p = (fst p, function_name (fst p), function_arguments (fst p))"

definition warning_of :: "tool_call \<times> LoopResult \<Rightarrow> msg" where
  "warning_of p =
     Tool_message (call_id (fst p)) (function_name (fst p))
       ([CHR 0xE2, CHR 0x9A, CHR 0xA0, CHR 0xEF, CHR 0xB8, CHR 0x8F] @ '' LOOP DETECTED: '' @
        message (snd p))"

text \<open>The requested calls the detector did not flag, and the warnings for those it did.\<close>

definition unflagged_calls :: "('j, 'd) collaborators \<Rightarrow> 'd \<Rightarrow> tool_call list \<Rightarrow> tool_call list" where
  "unflagged_calls env d tcs =
     map fst (filter (\<lambda>p. \<not> flagged p) (zip tcs (verdicts env d tcs)))"

definition loop_warnings :: "('j, 'd) collaborators \<Rightarrow> 'd \<Rightarrow> tool_call list \<Rightarrow> msg list" where
  "loop_warnings env d tcs = map warning_of (filter flagged (zip tcs (verdicts env d tcs)))"

text \<open>The token counts of a response as the step record reads them, and whether pricing them raises.\<close>

definition cost_defined :: "response \<Rightarrow> bool" where
  "cost_defined resp =
     (\<not> isl (fallback_cost
        (case resp_usage resp of None \<Rightarrow> 0 | Some u \<Rightarrow> getattr (prompt_tokens u) 0)
        (case resp_usage resp of None \<Rightarrow> 0 | Some u \<Rightarrow> getattr (completion_tokens u) 0)))"

text \<open>An argument text that line 151 accepts: empty, or one that \<^verbatim>\<open>json.loads\<close> parses.\<close>

definition arguments_load :: "('j, 'd) collaborators \<Rightarrow> string \<Rightarrow> bool" where
  "arguments_load env text = (text = [] \<or> \<not> isl (json_loads env text))"

text \<open>
  A response that requests tool calls and on which no step of the loop raises: the list of
  tool calls is not empty, every argument text loads, and the cost is defined.
\<close>

definition requests_tools :: "('j, 'd) collaborators \<Rightarrow> response \<Rightarrow> bool" where
  "requests_tools env resp =
     (truthy_list (tool_calls resp) \<noteq> None \<and>
      list_all (\<lambda>tc. arguments_load env (function_arguments tc)) (getattr (tool_calls resp) []) \<and>
      cost_defined resp)"

text \<open>The number of steps the tracer has logged.\<close>

fun is_Log_step :: "'j trace_event \<Rightarrow> bool" where
  "is_Log_step (Log_step trace_id step) = True"
| "is_Log_step ev = False"

definition logged_steps :: "'j trace_event list \<Rightarrow> nat" where
  "logged_steps evs = length (filter is_Log_step evs)"

text \<open>The tool message that belongs to a call: its id, its name and the output of its execution.\<close>

definition result_message :: "('j, 'd) collaborators \<Rightarrow> tool_call \<Rightarrow> msg" where
  "result_message env tc =
     Tool_message (call_id tc) (function_name tc)
       (snd (snd (execute_tool env tc (function_name tc) (function_arguments tc))))"

text \<open>
  A float that is neither negative nor a NaN, a response whose token counts are not
  negative, and a \<^verbatim>\<open>log_completion\<close> call with such a response.
\<close>

fun nonneg_float :: "pyfloat \<Rightarrow> bool" where
  "nonneg_float (Fin m e) = (0 \<le> m)"
| "nonneg_float PInf = True"
| "nonneg_float NInf = False"
| "nonneg_float NaN = False"

definition nonneg_usage :: "response \<Rightarrow> bool" where
  "nonneg_usage resp =
     (case resp_usage resp of
        None \<Rightarrow> True
      | Some u \<Rightarrow> 0 \<le> getattr (prompt_tokens u) 0 \<and> 0 \<le> getattr (completion_tokens u) 0)"

definition nonneg_call :: "completion_call \<Rightarrow> bool" where
  "nonneg_call c = nonneg_usage (fst (snd c))"

section \<open>Concrete collaborators for the examples\<close>

text \<open>
  A stand-in for \<^verbatim>\<open>json.loads\<close> that knows two texts: \<^verbatim>\<open>{}\<close> loads (the loaded value is
  represented by its text), and \<^verbatim>\<open>not json\<close> raises with the message Python gives for it.
  Every other text is treated like the second.
\<close>

definition toy_json_loads :: "string \<Rightarrow> exn + string" where
  "toy_json_loads s =
     (if s = ''{}'' then Inr ''{}'' else Inl ''Expecting value: line 1 column 1 (char 0)'')"

text \<open>A registry with two tools, \<^verbatim>\<open>echo\<close> and \<^verbatim>\<open>lookup\<close>.\<close>

definition toy_registry :: "string \<Rightarrow> (string \<Rightarrow> exn + string) option" where
  "toy_registry nm =
     (if nm = ''echo'' then Some (\<lambda>args. Inr ''done'')
      else if nm = ''lookup'' then Some (\<lambda>args. Inr ''42'')
      else None)"

text \<open>A loop detector that flags a call whose name and arguments it has seen before.\<close>

definition repeat_detector ::
  "(string \<times> string) list \<Rightarrow> string \<Rightarrow> string \<Rightarrow> LoopResult \<times> (string \<times> string) list" where
  "repeat_detector seen nm args =
     (\<lparr>is_looping = ((nm, args) \<in> set seen), strategy = ''exact_repeat'',
       message = ''repeated call''\<rparr>,
      seen @ [(nm, args)])"

text \<open>A stagnation check that flags one given reasoning text, or none.\<close>

definition stagnation_detector ::
  "string option \<Rightarrow> (string \<times> string) list \<Rightarrow> string \<Rightarrow> LoopResult \<times> (string \<times> string) list" where
  "stagnation_detector stale seen rtext =
     (\<lparr>is_looping = (stale = Some rtext), strategy = ''stagnation'',
       message = ''no progress''\<rparr>,
      seen)"

text \<open>The collaborators of the examples: the gateway answers step \<open>n\<close> with \<open>script n\<close>.\<close>

definition toy_env ::
  "(int \<Rightarrow> exn + response) \<Rightarrow> string option \<Rightarrow>
   (string, (string \<times> string) list) collaborators" where
  "toy_env script stale =
     \<lparr>acompletion = (\<lambda>n mdl msgs schemas choice. script n),
      json_loads = toy_json_loads,
      get_tool = toy_registry,
      check_tool_call = repeat_detector,
      check_output_stagnation = stagnation_detector stale,
      start_trace = (\<lambda>nm q mdl. ''trace-1'')\<rparr>"

definition toy_agent :: "int \<Rightarrow> ObservableAgent" where
  "toy_agent n =
     \<lparr>agent_model = ''gemini/gemini-1.5-flash'', max_steps = n,
      agent_name = ''ObservableAgent'', system_prompt = None, tools = []\<rparr>"

definition fresh_state :: "(string, (string \<times> string) list) run_state" where
  "fresh_state =
     \<lparr>messages = [], final_answer = None, loop_detector = [],
      cost_tracker = new_CostTracker, tracer = [], registry_log = []\<rparr>"

definition reply :: "string option \<Rightarrow> tool_call list option \<Rightarrow> response" where
  "reply c tcs = \<lparr>resp_usage = None, resp_model = None, content = c, tool_calls = tcs\<rparr>"

definition call :: "string \<Rightarrow> string \<Rightarrow> string \<Rightarrow> tool_call" where
  "call i nm args = \<lparr>call_id = i, function_name = nm, function_arguments = args\<rparr>"

text \<open>
  Three calls in one step, the second a repeat of the first that the detector flags:
  \<^verbatim>\<open>call_1\<close> and \<^verbatim>\<open>call_2\<close> to \<^verbatim>\<open>echo\<close>, \<^verbatim>\<open>call_3\<close> to \<^verbatim>\<open>lookup\<close>.
\<close>

definition script_repeat :: "int \<Rightarrow> exn + response" where
  "script_repeat n =
     Inr (reply (Some ''working'')
            (Some [call ''call_1'' ''echo'' ''{}'', call ''call_2'' ''echo'' ''{}'',
                   call ''call_3'' ''lookup'' ''{}'']))"

text \<open>Two calls in one step, the first with arguments that are not JSON.\<close>

definition script_malformed :: "int \<Rightarrow> exn + response" where
  "script_malformed n =
     Inr (reply (Some ''working'')
            (Some [call ''call_1'' ''echo'' ''not json'', call ''call_2'' ''echo'' ''{}'']))"

text \<open>A first response with no tool calls and no content.\<close>

definition script_empty :: "int \<Rightarrow> exn + response" where
  "script_empty n = Inr (reply None None)"

text \<open>A gateway that fails.\<close>

definition script_down :: "int \<Rightarrow> exn + response" where
  "script_down n = Inl ''gateway down''"

text \<open>Every response requests the same call.\<close>

definition script_busy :: "int \<Rightarrow> exn + response" where
  "script_busy n = Inr (reply (Some ''working'') (Some [call ''call_1'' ''echo'' ''{}'']))"

section \<open>The cost tracker's ledger\<close>

subsection \<open>The fallback pricing on 1000 and 500 tokens\<close>

lemmas float_eval = binary64_round_def floor_log2_def round_half_even_def normalise_def
  bit_length.simps trailing_zeros.simps Let_def dyadic_round_def float_literal_def

lemma literal_0_15: "float_literal 15 100 = Fin 5404319552844595 (- 55)"
  by (simp add: float_eval)

lemma literal_0_60: "float_literal 60 100 = Fin 5404319552844595 (- 53)"
  by (simp add: float_eval)

lemma literal_0_00045: "float_literal 45 100000 = Fin 4150517416584649 (- 63)"
  by (simp add: float_eval)

lemma truediv_1000: "int_truediv 1000 1000000 = Inr (Fin 1152921504606847 (- 60))"
  by (simp add: int_truediv_def float_eval)

lemma truediv_500: "int_truediv 500 1000000 = Inr (Fin 1152921504606847 (- 61))"
  by (simp add: int_truediv_def float_eval)

lemma input_cost_1000:
  "float_mul (Fin 1152921504606847 (- 60)) (Fin 5404319552844595 (- 55)) =
   Fin 5534023222112865 (- 65)"
  by (simp add: float_eval)

lemma output_cost_500:
  "float_mul (Fin 1152921504606847 (- 61)) (Fin 5404319552844595 (- 53)) =
   Fin 5534023222112865 (- 64)"
  by (simp add: float_eval)

lemma total_cost_1000_500:
  "float_add (Fin 5534023222112865 (- 65)) (Fin 5534023222112865 (- 64)) =
   Fin 4150517416584649 (- 63)"
  by (simp add: float_eval)

lemma fallback_cost_1000_500: "fallback_cost 1000 500 = Inr (float_literal 45 100000)"
  by (simp add: fallback_cost_def truediv_1000 truediv_500 literal_0_15 literal_0_60
      literal_0_00045 input_cost_1000 output_cost_500 total_cost_1000_500
      del: float_mul.simps float_add.simps)

text \<open>
  Claim C6. With an active ledger \<open>l\<close>, \<^verbatim>\<open>log_completion\<close> on a response whose usage is 1000
  prompt tokens and 500 completion tokens and which names no model returns without raising
  and leaves as the active ledger \<open>l\<close> with one more entry at the end of its steps: a
  \<open>StepCost\<close> with the given step number and flag, the default model \<^verbatim>\<open>gpt-4o-mini\<close>, the
  two token counts, and a \<open>cost_usd\<close> that is exactly the float which the literal
  \<^verbatim>\<open>0.00045\<close> denotes, \<open>4150517416584649 / 2 ^ 63\<close>, computed in binary64 as
  \<^verbatim>\<open>(1000 / 1_000_000) * 0.15 + (500 / 1_000_000) * 0.60\<close>. That cost and the two token counts
  are added to the ledger's running totals.
\<close>

theorem default_rate_cost:
  "log_completion n
     \<lparr>resp_usage = Some \<lparr>prompt_tokens = Some 1000, completion_tokens = Some 500\<rparr>,
      resp_model = None, content = c, tool_calls = tcs\<rparr> b
     (t\<lparr>current_query := Some l\<rparr>) =
   Inr (t\<lparr>current_query := Some
          (l\<lparr>steps := steps l @
                 [\<lparr>step_number = n, model = ''gpt-4o-mini'', input_tokens = 1000,
                   output_tokens = 500, cost_usd = Fin 4150517416584649 (- 63),
                   is_tool_call = b\<rparr>],
             total_cost_usd := float_add (total_cost_usd l) (Fin 4150517416584649 (- 63)),
             total_input_tokens := total_input_tokens l + 1000,
             total_output_tokens := total_output_tokens l + 500\<rparr>)\<rparr>) \<and>
   float_literal 45 100000 = Fin 4150517416584649 (- 63)"
  by (simp add: log_completion_def getattr_def fallback_cost_1000_500 add_step_def
      literal_0_00045)

subsection \<open>Running totals\<close>

lemma float_sum_Nil: "float_sum [] = Fin 0 0"
  by (simp add: float_sum_def)

lemma float_sum_snoc: "float_sum (xs @ [x]) = float_add (float_sum xs) x"
  by (simp add: float_sum_def)

lemma totals_match_new: "totals_match (new_QueryCost q)"
  by (simp add: totals_match_def new_QueryCost_def float_sum_Nil)

lemma totals_match_add_step: "totals_match l \<Longrightarrow> totals_match (add_step l s)"
  by (simp add: totals_match_def add_step_def float_sum_snoc)

lemma query_add_step: "query (add_step l s) = query l"
  by (simp add: add_step_def)

lemma log_completion_cases:
  assumes "current_query t = Some l"
  shows "log_completion n r b t = Inr t \<or> (\<exists>e. log_completion n r b t = Inl e) \<or>
         (\<exists>sc. log_completion n r b t = Inr (t\<lparr>current_query := Some (add_step l sc)\<rparr>))"
  using assms
  by (auto simp: log_completion_def Let_def split: option.splits sum.splits)

lemma log_call_cases:
  assumes "current_query t = Some l"
  shows "current_query (log_call t c) = Some l \<or>
         (\<exists>sc. current_query (log_call t c) = Some (add_step l sc))"
proof (cases c)
  case (fields n r b)
  from log_completion_cases [OF assms, of n r b] assms fields show ?thesis
    by (auto simp: log_call_def)
qed

lemma log_completions_active:
  assumes "current_query t = Some l" and "totals_match l"
  shows "\<exists>l'. current_query (log_completions cs t) = Some l' \<and> totals_match l' \<and>
              query l' = query l"
  using assms
proof (induction cs arbitrary: t l)
  case Nil
  then show ?case by (simp add: log_completions_def)
next
  case (Cons c cs)
  from log_call_cases [OF Cons.prems(1), of c]
  obtain l1 where l1: "current_query (log_call t c) = Some l1"
    and m1: "totals_match l1" and q1: "query l1 = query l"
    using Cons.prems(2) by (auto simp: totals_match_add_step query_add_step)
  from Cons.IH [OF l1 m1] q1 show ?case
    by (simp add: log_completions_def)
qed

lemma log_completions_snoc: "log_completions (cs @ [c]) t = log_call (log_completions cs t) c"
  by (simp add: log_completions_def)

text \<open>
  Claim C1. Take a tracker on which \<^verbatim>\<open>start_query\<close> has opened a ledger, and any
  sequence \<open>cs\<close> of \<^verbatim>\<open>log_completion\<close> calls on it. After the calls the same ledger is still
  the active one and its running totals equal the sums over its recorded steps: the cost
  total is the float that adding the steps' costs in order gives, and the two token totals
  are the integer sums. Since \<open>cs\<close> is any sequence, this holds after every call. The
  totals are maintained incrementally: one more call \<open>c\<close> either leaves the ledger as it is
  (no usage, or the call raised) or appends one step \<open>sc\<close> and adds that step's cost and
  token counts to the totals the ledger had.
\<close>

theorem ledger_totals_equal_sums:
  "\<exists>l l'. current_query (log_completions cs (start_query q t)) = Some l \<and>
          query l = q \<and> totals_match l \<and>
          current_query (log_completions (cs @ [c]) (start_query q t)) = Some l' \<and>
          (l' = l \<or>
           (\<exists>sc. l' = l\<lparr>steps := steps l @ [sc],
                         total_cost_usd := float_add (total_cost_usd l) (cost_usd sc),
                         total_input_tokens := total_input_tokens l + input_tokens sc,
                         total_output_tokens := total_output_tokens l + output_tokens sc\<rparr>))"
proof -
  have "current_query (start_query q t) = Some (new_QueryCost q)"
    by (simp add: start_query_def)
  from log_completions_active [OF this totals_match_new, of cs]
  obtain l where l: "current_query (log_completions cs (start_query q t)) = Some l"
    and m: "totals_match l" and ql: "query l = q"
    by (auto simp: new_QueryCost_def)
  from log_call_cases [OF l, of c] l m ql show ?thesis
    by (auto simp: log_completions_snoc add_step_def)
qed

subsection \<open>The cost total under Python's \<^verbatim>\<open>==\<close>\<close>

text \<open>
  A NaN equals nothing under \<^verbatim>\<open>==\<close>. With token counts that are not negative no cost and
  no total is negative or a NaN, so the cost total and the sum of the step costs are equal
  under \<^verbatim>\<open>==\<close> as well.
\<close>

lemma round_half_even_nonneg: "0 \<le> n \<Longrightarrow> 0 < d \<Longrightarrow> 0 \<le> round_half_even n d"
  by (simp add: round_half_even_def Let_def pos_imp_zdiv_nonneg_iff)

lemma normalise_nonneg: "0 \<le> m \<Longrightarrow> nonneg_float (normalise m e)"
  by (simp add: normalise_def Let_def pos_imp_zdiv_nonneg_iff)

lemma binary64_round_nonneg:
  assumes "0 \<le> p" and "0 < q"
  shows "nonneg_float (binary64_round p q)"
proof (cases "p = 0")
  case True
  then show ?thesis by (simp add: binary64_round_def)
next
  case False
  define e where "e = max (floor_log2 (nat \<bar>p\<bar>) (nat q) - 52) (- 1074)"
  define m where "m = round_half_even (p * 2 ^ nat (- e)) (q * 2 ^ nat e)"
  define ov where "ov \<longleftrightarrow> (2::int) ^ 1024 \<le> \<bar>m\<bar> * 2 ^ nat e"
  have eq: "binary64_round p q =
      (if ov then (if 0 < m then PInf else NInf) else normalise m e)"
    unfolding binary64_round_def Let_def e_def [symmetric] m_def [symmetric] ov_def [symmetric]
    using False by (simp only: if_False)
  have m0: "0 \<le> m"
    unfolding m_def using assms by (intro round_half_even_nonneg) simp_all
  show ?thesis
  proof (cases "0 < m")
    case True
    then show ?thesis
      unfolding eq by (cases ov) (simp_all add: normalise_nonneg m0)
  next
    case False
    with m0 have "m = 0" by simp
    then have "\<not> ov" unfolding ov_def by simp
    then show ?thesis
      unfolding eq by (simp add: normalise_nonneg m0)
  qed
qed

lemma dyadic_round_nonneg: "0 \<le> m \<Longrightarrow> nonneg_float (dyadic_round m e)"
  by (simp add: dyadic_round_def binary64_round_nonneg)

lemma float_add_nonneg:
  "nonneg_float x \<Longrightarrow> nonneg_float y \<Longrightarrow> nonneg_float (float_add x y)"
  by (cases x; cases y) (simp_all add: Let_def dyadic_round_nonneg)

lemma float_mul_Fin_nonneg:
  "0 \<le> m1 \<Longrightarrow> 0 \<le> m2 \<Longrightarrow> nonneg_float (float_mul (Fin m1 e1) (Fin m2 e2))"
  by (simp add: dyadic_round_nonneg)

lemma int_truediv_nonneg:
  assumes "0 \<le> a" and "int_truediv a 1000000 = Inr x"
  shows "\<exists>m e. x = Fin m e \<and> 0 \<le> m"
proof -
  from assms(1) have "nonneg_float (binary64_round a 1000000)"
    by (simp add: binary64_round_nonneg)
  with assms(2) show ?thesis
    by (cases "binary64_round a 1000000") (auto simp: int_truediv_def)
qed

lemma fallback_cost_nonneg:
  assumes "0 \<le> inp" and "0 \<le> out" and "fallback_cost inp out = Inr c"
  shows "nonneg_float c"
proof -
  from assms(3) obtain a b where a: "int_truediv inp 1000000 = Inr a"
    and b: "int_truediv out 1000000 = Inr b"
    and c: "c = float_add (float_mul a (float_literal 15 100)) (float_mul b (float_literal 60 100))"
    by (auto simp: fallback_cost_def Let_def split: sum.splits)
  from int_truediv_nonneg [OF assms(1) a] obtain ma ea where "a = Fin ma ea" "0 \<le> ma" by blast
  moreover from int_truediv_nonneg [OF assms(2) b] obtain mb eb where "b = Fin mb eb" "0 \<le> mb" by blast
  ultimately have "nonneg_float (float_mul a (float_literal 15 100))"
    and "nonneg_float (float_mul b (float_literal 60 100))"
    by (simp_all add: literal_0_15 literal_0_60 dyadic_round_nonneg)
  then show ?thesis
    unfolding c by (rule float_add_nonneg)
qed

lemma float_eq_refl: "nonneg_float x \<Longrightarrow> float_eq x x"
  by (cases x) (simp_all add: float_eq_def)

lemma log_call_nonneg:
  assumes "current_query t = Some l" and "nonneg_float (total_cost_usd l)" and "nonneg_call c"
  shows "\<exists>l'. current_query (log_call t c) = Some l' \<and> nonneg_float (total_cost_usd l')"
proof -
  obtain n r b where c: "c = (n, r, b)" by (cases c) auto
  show ?thesis
  proof (cases "resp_usage r")
    case None
    then show ?thesis using assms by (simp add: c log_call_def log_completion_def)
  next
    case (Some u)
    let ?i = "getattr (prompt_tokens u) 0"
    let ?o = "getattr (completion_tokens u) 0"
    from assms(3) Some have nn: "0 \<le> ?i" "0 \<le> ?o"
      by (simp_all add: nonneg_call_def nonneg_usage_def c)
    show ?thesis
    proof (cases "fallback_cost ?i ?o")
      case (Inl e)
      then show ?thesis using assms Some by (simp add: c log_call_def log_completion_def Let_def)
    next
      case (Inr cost)
      from fallback_cost_nonneg [OF nn Inr] assms(2)
      have "nonneg_float (float_add (total_cost_usd l) cost)"
        by (simp add: float_add_nonneg)
      then show ?thesis using assms(1) Some Inr
        by (simp add: c log_call_def log_completion_def Let_def add_step_def)
    qed
  qed
qed

lemma log_completions_nonneg:
  assumes "current_query t = Some l" and "nonneg_float (total_cost_usd l)"
    and "list_all nonneg_call cs"
  shows "\<exists>l'. current_query (log_completions cs t) = Some l' \<and> nonneg_float (total_cost_usd l')"
  using assms
proof (induction cs arbitrary: t l)
  case Nil
  then show ?case by (simp add: log_completions_def)
next
  case (Cons c cs)
  from Cons.prems(3) have c: "nonneg_call c" and cs: "list_all nonneg_call cs" by simp_all
  from log_call_nonneg [OF Cons.prems(1,2) c]
  obtain l1 where l1: "current_query (log_call t c) = Some l1" "nonneg_float (total_cost_usd l1)"
    by blast
  from Cons.IH [OF l1 cs] show ?case
    by (simp add: log_completions_def)
qed

lemma cost_total_python_equal:
  assumes "list_all nonneg_call cs"
  shows "\<exists>l. current_query (log_completions cs (start_query q t)) = Some l \<and>
             float_eq (total_cost_usd l) (float_sum (map cost_usd (steps l)))"
proof -
  have cur: "current_query (start_query q t) = Some (new_QueryCost q)"
    by (simp add: start_query_def)
  have "nonneg_float (total_cost_usd (new_QueryCost q))"
    by (simp add: new_QueryCost_def)
  from log_completions_nonneg [OF cur this assms]
  obtain l where l: "current_query (log_completions cs (start_query q t)) = Some l"
    and nn: "nonneg_float (total_cost_usd l)" by blast
  from log_completions_active [OF cur totals_match_new, of cs] l
  have "total_cost_usd l = float_sum (map cost_usd (steps l))"
    by (auto simp: totals_match_def)
  with float_eq_refl [OF nn] l show ?thesis by simp
qed

section \<open>The loop over the tool calls of a step\<close>

lemma dispatch_tasks:
  "fst (dispatch env tcs tasks s) =
     tasks @ map task_of (filter (\<lambda>p. \<not> flagged p) (zip tcs (verdicts env (loop_detector s) tcs)))"
proof (induction tcs arbitrary: tasks s)
  case Nil
  show ?case by simp
next
  case (Cons tc tcs)
  show ?case
    by (simp add: Cons.IH Let_def flagged_def task_of_def split: prod.splits)
qed

lemma dispatch_messages:
  "messages (snd (dispatch env tcs tasks s)) =
     messages s @ map warning_of (filter flagged (zip tcs (verdicts env (loop_detector s) tcs)))"
proof (induction tcs arbitrary: tasks s)
  case Nil
  show ?case by simp
next
  case (Cons tc tcs)
  show ?case
    by (simp add: Cons.IH Let_def flagged_def warning_of_def loop_warning_def warning_sign_def
        split: prod.splits)
qed

lemma dispatch_frame:
  "cost_tracker (snd (dispatch env tcs tasks s)) = cost_tracker s \<and>
   tracer (snd (dispatch env tcs tasks s)) = tracer s \<and>
   final_answer (snd (dispatch env tcs tasks s)) = final_answer s \<and>
   registry_log (snd (dispatch env tcs tasks s)) = registry_log s"
proof (induction tcs arbitrary: tasks s)
  case Nil
  show ?case by simp
next
  case (Cons tc tcs)
  show ?case
    by (simp add: Cons.IH Let_def split: prod.splits)
qed

lemma gather_frame:
  "cost_tracker (snd (gather env tasks s)) = cost_tracker s \<and>
   tracer (snd (gather env tasks s)) = tracer s \<and>
   final_answer (snd (gather env tasks s)) = final_answer s \<and>
   messages (snd (gather env tasks s)) = messages s"
  by (simp add: gather_def)

lemma gather_inputs:
  "map (\<lambda>r. fst (snd r)) (fst (gather env tasks s)) = map (\<lambda>t. snd (snd t)) tasks"
  by (simp add: gather_def execute_tool_def Let_def split_def comp_def)

lemma record_results_frame:
  "cost_tracker (snd (snd (record_results env zs step s))) = cost_tracker s \<and>
   tracer (snd (snd (record_results env zs step s))) = tracer s \<and>
   final_answer (snd (snd (record_results env zs step s))) = final_answer s \<and>
   registry_log (snd (snd (record_results env zs step s))) = registry_log s \<and>
   loop_detector (snd (snd (record_results env zs step s))) = loop_detector s"
proof (induction zs arbitrary: step s)
  case Nil
  show ?case by simp
next
  case (Cons z zs)
  obtain tc nm inp out where z: "z = (tc, nm, inp, out)" by (cases z) auto
  show ?case
    by (simp add: z Cons.IH split: sum.splits)
qed

lemma record_results_reasoning:
  "reasoning (fst (snd (record_results env zs step s))) = reasoning step"
proof (induction zs arbitrary: step s)
  case Nil
  show ?case by simp
next
  case (Cons z zs)
  obtain tc nm inp out where z: "z = (tc, nm, inp, out)" by (cases z) auto
  show ?case
    by (simp add: z Cons.IH split: sum.splits)
qed

lemma record_results_messages:
  "\<exists>rest. messages (snd (snd (record_results env zs step s))) = messages s @ rest"
proof (induction zs arbitrary: step s)
  case Nil
  show ?case by simp
next
  case (Cons z zs)
  obtain tc nm inp out where z: "z = (tc, nm, inp, out)" by (cases z) auto
  show ?case
  proof (cases "if inp \<noteq> [] then map_sum id Parsed (json_loads env inp) else Inr Empty_dict")
    case (Inl e)
    then show ?thesis by (simp add: z)
  next
    case (Inr parsed)
    from Cons.IH [of "step\<lparr>as_tool_calls := as_tool_calls step @
               [\<lparr>tool_name = nm, tool_input = parsed, tool_output = out\<rparr>]\<rparr>"
         "s\<lparr>messages := messages s @ [Tool_message (call_id tc) nm out]\<rparr>"]
    show ?thesis using Inr by (auto simp: z)
  qed
qed

lemma record_results_signal:
  "fst (record_results env zs step s) = Continue \<or>
   (\<exists>e. fst (record_results env zs step s) = Raise e)"
proof (induction zs arbitrary: step s)
  case Nil
  show ?case by simp
next
  case (Cons z zs)
  obtain tc nm inp out where z: "z = (tc, nm, inp, out)" by (cases z) auto
  show ?case
    by (simp add: z Cons.IH split: sum.splits)
qed

lemma record_results_loads:
  assumes "list_all (\<lambda>z. arguments_load env (fst (snd (snd z)))) zs"
  shows "fst (record_results env zs step s) = Continue"
  using assms
proof (induction zs arbitrary: step s)
  case Nil
  show ?case by simp
next
  case (Cons z zs)
  obtain tc nm inp out where z: "z = (tc, nm, inp, out)" by (cases z) auto
  from Cons.prems have "arguments_load env inp" and rest: "list_all (\<lambda>z. arguments_load env (fst (snd (snd z)))) zs"
    by (simp_all add: z)
  have "\<exists>parsed.
    (if inp \<noteq> [] then map_sum id Parsed (json_loads env inp) else Inr Empty_dict) = Inr parsed"
  proof (cases "inp = []")
    case True
    then show ?thesis by simp
  next
    case False
    with \<open>arguments_load env inp\<close> obtain v where "json_loads env inp = Inr v"
      by (cases "json_loads env inp") (auto simp: arguments_load_def)
    with False show ?thesis by simp
  qed
  then obtain parsed where p:
    "(if inp \<noteq> [] then map_sum id Parsed (json_loads env inp) else Inr Empty_dict) = Inr parsed"
    by blast
  have "record_results env (z # zs) step s =
        record_results env zs
          (step\<lparr>as_tool_calls := as_tool_calls step @
             [\<lparr>tool_name = nm, tool_input = parsed, tool_output = out\<rparr>]\<rparr>)
          (s\<lparr>messages := messages s @ [Tool_message (call_id tc) nm out]\<rparr>)"
    unfolding z record_results.simps p by simp
  then show ?case
    using Cons.IH [OF rest] by simp
qed

lemma check_stagnation_frame:
  "cost_tracker (snd (check_stagnation env r s)) = cost_tracker s \<and>
   tracer (snd (check_stagnation env r s)) = tracer s \<and>
   messages (snd (check_stagnation env r s)) = messages s \<and>
   registry_log (snd (check_stagnation env r s)) = registry_log s"
  by (simp add: check_stagnation_def Let_def split: option.splits prod.splits)

lemma check_stagnation_signal:
  "(fst (check_stagnation env r s) = Continue \<and>
      final_answer (snd (check_stagnation env r s)) = final_answer s) \<or>
   (fst (check_stagnation env r s) = Break_stagnation \<and>
      (\<exists>d text. is_looping (fst (check_output_stagnation env d text)) \<and>
         final_answer (snd (check_stagnation env r s)) =
           Some (''Agent stopped due to stagnation: '' @
                 message (fst (check_output_stagnation env d text)))))"
proof (cases r)
  case None
  then show ?thesis by (simp add: check_stagnation_def)
next
  case (Some rtext)
  show ?thesis
  proof (cases "rtext = [] \<or> \<not> is_looping (fst (check_output_stagnation env (loop_detector s) rtext))")
    case True
    then show ?thesis
      by (auto simp: Some check_stagnation_def Let_def split: prod.splits)
  next
    case False
    then have "fst (check_stagnation env r s) = Break_stagnation"
      and "final_answer (snd (check_stagnation env r s)) =
           Some (''Agent stopped due to stagnation: '' @
                 message (fst (check_output_stagnation env (loop_detector s) rtext)))"
      by (auto simp: Some check_stagnation_def Let_def split: prod.splits)
    with False show ?thesis by blast
  qed
qed

lemma check_stagnation_never:
  assumes "\<forall>d text. \<not> is_looping (fst (check_output_stagnation env d text))"
  shows "fst (check_stagnation env r s) = Continue"
  using assms
  by (simp add: check_stagnation_def Let_def split_def split: option.splits)

lemma handle_tool_calls_unfold:
  assumes "dispatch env tcs [] s = (tasks, s1)"
    and "gather env tasks s1 = (results, s2)"
    and "record_results env (zip tcs results) step s2 = (sig, step', s3)"
  shows "handle_tool_calls env trace_id tcs step s =
      (case sig of Raise e \<Rightarrow> (Raise e, s3)
       | _ \<Rightarrow> check_stagnation env (reasoning step')
                (s3\<lparr>tracer := tracer s3 @ [Log_step trace_id step']\<rparr>))"
  using assms by (simp add: handle_tool_calls_def split: signal.splits)

lemma handle_tool_calls_cases:
  "(\<exists>e. fst (handle_tool_calls env tid tcs step s) = Raise e \<and>
        tracer (snd (handle_tool_calls env tid tcs step s)) = tracer s \<and>
        final_answer (snd (handle_tool_calls env tid tcs step s)) = final_answer s) \<or>
   (fst (handle_tool_calls env tid tcs step s) = Continue \<and>
      (\<exists>step'. tracer (snd (handle_tool_calls env tid tcs step s)) = tracer s @ [Log_step tid step']) \<and>
      final_answer (snd (handle_tool_calls env tid tcs step s)) = final_answer s) \<or>
   (fst (handle_tool_calls env tid tcs step s) = Break_stagnation \<and>
      (\<exists>step'. tracer (snd (handle_tool_calls env tid tcs step s)) = tracer s @ [Log_step tid step']) \<and>
      (\<exists>d text. is_looping (fst (check_output_stagnation env d text)) \<and>
         final_answer (snd (handle_tool_calls env tid tcs step s)) =
           Some (''Agent stopped due to stagnation: '' @
                 message (fst (check_output_stagnation env d text)))))"
proof -
  obtain tasks s1 where d: "dispatch env tcs [] s = (tasks, s1)" by (cases "dispatch env tcs [] s")
  obtain results s2 where g: "gather env tasks s1 = (results, s2)" by (cases "gather env tasks s1")
  obtain sig step' s3 where r: "record_results env (zip tcs results) step s2 = (sig, step', s3)"
    by (cases "record_results env (zip tcs results) step s2") auto
  note h = handle_tool_calls_unfold [OF d g r, of tid]
  have s1: "tracer s1 = tracer s" "final_answer s1 = final_answer s"
    using dispatch_frame [of env tcs "[]" s] d by simp_all
  have s2: "tracer s2 = tracer s1" "final_answer s2 = final_answer s1"
    using gather_frame [of env tasks s1] g by simp_all
  have s3: "tracer s3 = tracer s2" "final_answer s3 = final_answer s2"
    using record_results_frame [of env "zip tcs results" step s2] r by simp_all
  from record_results_signal [of env "zip tcs results" step s2] r
  consider (ok) "sig = Continue" | (raised) e where "sig = Raise e" by auto
  then show ?thesis
  proof cases
    case raised
    then show ?thesis by (simp add: h s1 s2 s3)
  next
    case ok
    let ?s4 = "s3\<lparr>tracer := tracer s3 @ [Log_step tid step']\<rparr>"
    have h': "handle_tool_calls env tid tcs step s = check_stagnation env (reasoning step') ?s4"
      by (simp add: h ok)
    have t: "tracer (snd (check_stagnation env (reasoning step') ?s4)) = tracer s @ [Log_step tid step']"
      by (simp add: check_stagnation_frame s1 s2 s3)
    have f: "final_answer ?s4 = final_answer s" by (simp add: s1 s2 s3)
    from check_stagnation_signal [of env "reasoning step'" ?s4] show ?thesis
      unfolding h' t f by blast
  qed
qed

lemma handle_tool_calls_cost_tracker:
  "cost_tracker (snd (handle_tool_calls env tid tcs step s)) = cost_tracker s"
proof -
  obtain tasks s1 where d: "dispatch env tcs [] s = (tasks, s1)" by (cases "dispatch env tcs [] s")
  obtain results s2 where g: "gather env tasks s1 = (results, s2)" by (cases "gather env tasks s1")
  obtain sig step' s3 where r: "record_results env (zip tcs results) step s2 = (sig, step', s3)"
    by (cases "record_results env (zip tcs results) step s2") auto
  note h = handle_tool_calls_unfold [OF d g r, of tid]
  have "cost_tracker s1 = cost_tracker s"
    using dispatch_frame [of env tcs "[]" s] d by simp
  moreover have "cost_tracker s2 = cost_tracker s1"
    using gather_frame [of env tasks s1] g by simp
  moreover have "cost_tracker s3 = cost_tracker s2"
    using record_results_frame [of env "zip tcs results" step s2] r by simp
  ultimately show ?thesis
    by (cases sig) (simp_all add: h check_stagnation_frame)
qed

text \<open>
  Claim C7. In a step that handles the requested calls \<open>tcs\<close>, let the detector answer
  them in request order, starting from the state it has then. The calls handed to
  \<^verbatim>\<open>_execute_tool\<close>, and so looked up in the registry, are exactly the requested calls whose
  answer is not looping, in request order: a flagged call is never invoked. For every
  flagged call, in request order, a tool message is appended to the conversation that
  carries that call's id and name and whose content is the warning sign (U+26A0 U+FE0F in
  UTF-8), the marker \<^verbatim>\<open>LOOP DETECTED:\<close> and the detector's message. Every requested call is
  looked at, flagged or not.
\<close>

theorem flagged_calls_not_executed:
  "registry_log (snd (handle_tool_calls env trace_id tcs step s)) =
     registry_log s @
     map fst (filter (\<lambda>p. \<not> is_looping (snd p))
                (zip tcs (verdicts env (loop_detector s) tcs))) \<and>
   (\<exists>rest. messages (snd (handle_tool_calls env trace_id tcs step s)) =
     messages s @
     map (\<lambda>p. Tool_message (call_id (fst p)) (function_name (fst p))
                ([CHR 0xE2, CHR 0x9A, CHR 0xA0, CHR 0xEF, CHR 0xB8, CHR 0x8F] @
                 '' LOOP DETECTED: '' @ message (snd p)))
       (filter (\<lambda>p. is_looping (snd p)) (zip tcs (verdicts env (loop_detector s) tcs))) @
     rest)"
proof -
  obtain tasks s1 where d: "dispatch env tcs [] s = (tasks, s1)" by (cases "dispatch env tcs [] s")
  obtain results s2 where g: "gather env tasks s1 = (results, s2)" by (cases "gather env tasks s1")
  obtain sig step' s3 where r: "record_results env (zip tcs results) step s2 = (sig, step', s3)"
    by (cases "record_results env (zip tcs results) step s2") auto
  let ?vs = "zip tcs (verdicts env (loop_detector s) tcs)"
  have tasks: "tasks = map task_of (filter (\<lambda>p. \<not> flagged p) ?vs)"
    using dispatch_tasks [of env tcs "[]" s] d by simp
  have s1m: "messages s1 = messages s @ map warning_of (filter flagged ?vs)"
    using dispatch_messages [of env tcs "[]" s] d by simp
  have s1r: "registry_log s1 = registry_log s"
    using dispatch_frame [of env tcs "[]" s] d by simp
  have s2: "s2 = s1\<lparr>registry_log := registry_log s1 @ map fst tasks\<rparr>"
    using g by (simp add: gather_def)
  have s3r: "registry_log s3 = registry_log s2"
    using record_results_frame [of env "zip tcs results" step s2] r by simp
  obtain rest where s3m: "messages s3 = messages s2 @ rest"
    using record_results_messages [of env "zip tcs results" step s2] r by auto
  have fst_tasks: "map fst tasks = map fst (filter (\<lambda>p. \<not> is_looping (snd p)) ?vs)"
    by (simp add: tasks task_of_def comp_def flagged_def)
  have warn: "map warning_of (filter flagged ?vs) =
     map (\<lambda>p. Tool_message (call_id (fst p)) (function_name (fst p))
                ([CHR 0xE2, CHR 0x9A, CHR 0xA0, CHR 0xEF, CHR 0xB8, CHR 0x8F] @
                 '' LOOP DETECTED: '' @ message (snd p)))
       (filter (\<lambda>p. is_looping (snd p)) ?vs)"
  proof -
    have w: "warning_of =
        (\<lambda>p. Tool_message (call_id (fst p)) (function_name (fst p))
                ([CHR 0xE2, CHR 0x9A, CHR 0xA0, CHR 0xEF, CHR 0xB8, CHR 0x8F] @
                 '' LOOP DETECTED: '' @ message (snd p)))"
      by (rule ext) (simp add: warning_of_def)
    have f: "flagged = (\<lambda>p. is_looping (snd p))"
      by (rule ext) (simp add: flagged_def)
    show ?thesis
      by (simp only: w f)
  qed
  note h = handle_tool_calls_unfold [OF d g r, of trace_id]
  have reg: "registry_log (snd (handle_tool_calls env trace_id tcs step s)) =
      registry_log s @ map fst (filter (\<lambda>p. \<not> is_looping (snd p)) ?vs)"
    by (cases sig) (simp_all add: h check_stagnation_frame s3r s2 s1r fst_tasks)
  have msgs: "messages (snd (handle_tool_calls env trace_id tcs step s)) =
      messages s @ map warning_of (filter flagged ?vs) @ rest"
    by (cases sig) (simp_all add: h check_stagnation_frame s3m s2 s1m)
  from reg msgs show ?thesis
    unfolding warn by blast
qed

section \<open>One iteration of the loop\<close>

lemma fallback_cost_zero: "fallback_cost 0 0 = Inr (Fin 0 0)"
  by (simp add: fallback_cost_def int_truediv_def binary64_round_def dyadic_round_def
      literal_0_15 literal_0_60)

lemma log_completion_defined:
  assumes "cost_defined r"
  shows "\<exists>ct. log_completion n r b t = Inr ct"
proof (cases "current_query t")
  case None
  then show ?thesis by (simp add: log_completion_def)
next
  case (Some q)
  show ?thesis
  proof (cases "resp_usage r")
    case None
    with Some show ?thesis by (simp add: log_completion_def)
  next
    case (Some u)
    with assms obtain c where
      "fallback_cost (getattr (prompt_tokens u) 0) (getattr (completion_tokens u) 0) = Inr c"
      by (cases "fallback_cost (getattr (prompt_tokens u) 0) (getattr (completion_tokens u) 0)")
         (auto simp: cost_defined_def)
    with Some \<open>current_query t = Some q\<close> show ?thesis
      by (simp add: log_completion_def Let_def)
  qed
qed

lemma new_AgentStep_defined:
  assumes "cost_defined r"
  shows "\<exists>step. new_AgentStep n r = Inr step \<and> reasoning step = content r"
proof -
  let ?i = "case resp_usage r of None \<Rightarrow> 0 | Some u \<Rightarrow> getattr (prompt_tokens u) 0"
  let ?o = "case resp_usage r of None \<Rightarrow> 0 | Some u \<Rightarrow> getattr (completion_tokens u) 0"
  from assms obtain c where "fallback_cost ?i ?o = Inr c"
    by (cases "fallback_cost ?i ?o") (auto simp: cost_defined_def)
  then show ?thesis
    by (simp add: new_AgentStep_def Let_def)
qed

lemma new_AgentStep_reasoning:
  "new_AgentStep n r = Inr step \<Longrightarrow> reasoning step = content r"
  by (auto simp: new_AgentStep_def Let_def split: sum.splits)

text \<open>What one iteration does to the cost tracker.\<close>

lemma agent_step_cost_tracker:
  assumes "current_query (cost_tracker s) = Some l"
  shows "queries (cost_tracker (snd (agent_step env self tid n s))) = queries (cost_tracker s) \<and>
         (\<exists>l'. current_query (cost_tracker (snd (agent_step env self tid n s))) = Some l' \<and>
               query l' = query l)"
proof (cases "call_llm env self n (messages s)")
  case (Inl e)
  then show ?thesis using assms by (simp add: agent_step_def)
next
  case (Inr r)
  from log_completion_cases [OF assms, of n r False]
  consider (same) "log_completion n r False (cost_tracker s) = Inr (cost_tracker s)"
    | (raised) e where "log_completion n r False (cost_tracker s) = Inl e"
    | (added) sc where "log_completion n r False (cost_tracker s) =
         Inr ((cost_tracker s)\<lparr>current_query := Some (add_step l sc)\<rparr>)"
    by blast
  then show ?thesis
  proof cases
    case raised
    then show ?thesis using assms Inr by (simp add: agent_step_def)
  next
    case same
    then show ?thesis using assms Inr
      by (auto simp: agent_step_def Let_def handle_tool_calls_cost_tracker
          split: sum.splits option.splits)
  next
    case added
    then show ?thesis using assms Inr
      by (auto simp: agent_step_def Let_def handle_tool_calls_cost_tracker query_add_step
          split: sum.splits option.splits)
  qed
qed

text \<open>How one iteration ends, with what it did to the tracer and the final answer.\<close>

lemma agent_step_cases:
  "(\<exists>e. fst (agent_step env self tid n s) = Raise e \<and>
        final_answer (snd (agent_step env self tid n s)) = final_answer s \<and>
        tracer (snd (agent_step env self tid n s)) = tracer s) \<or>
   (fst (agent_step env self tid n s) = Continue \<and>
      final_answer (snd (agent_step env self tid n s)) = final_answer s \<and>
      (\<exists>step. tracer (snd (agent_step env self tid n s)) = tracer s @ [Log_step tid step])) \<or>
   (fst (agent_step env self tid n s) = Break_answer \<and>
      (\<exists>r. call_llm env self n (messages s) = Inr r \<and> truthy_list (tool_calls r) = None \<and>
           final_answer (snd (agent_step env self tid n s)) = content r) \<and>
      (\<exists>step. tracer (snd (agent_step env self tid n s)) = tracer s @ [Log_step tid step])) \<or>
   (fst (agent_step env self tid n s) = Break_stagnation \<and>
      (\<exists>step. tracer (snd (agent_step env self tid n s)) = tracer s @ [Log_step tid step]) \<and>
      (\<exists>d rtext. is_looping (fst (check_output_stagnation env d rtext)) \<and>
         final_answer (snd (agent_step env self tid n s)) =
           Some (''Agent stopped due to stagnation: '' @
                 message (fst (check_output_stagnation env d rtext)))))"
proof (cases "call_llm env self n (messages s)")
  case (Inl e)
  then show ?thesis by (simp add: agent_step_def)
next
  case (Inr r)
  note llm = this
  show ?thesis
  proof (cases "log_completion n r False (cost_tracker s)")
    case (Inl e)
    then show ?thesis using llm by (simp add: agent_step_def)
  next
    case (Inr ct)
    note lc = this
    let ?s1 = "s\<lparr>cost_tracker := ct\<rparr>"
    show ?thesis
    proof (cases "new_AgentStep n r :: exn + 'a AgentStep")
      case (Inl e)
      then show ?thesis using llm lc by (simp add: agent_step_def)
    next
      case (Inr step)
      note st = this
      let ?s2 = "?s1\<lparr>messages := messages ?s1 @
                    [Assistant_message (content r) (truthy_list (tool_calls r))]\<rparr>"
      show ?thesis
      proof (cases "truthy_list (tool_calls r)")
        case None
        then show ?thesis using llm lc st by (simp add: agent_step_def)
      next
        case (Some tcs)
        have eq: "agent_step env self tid n s = handle_tool_calls env tid tcs step ?s2"
          using llm lc st Some by (simp add: agent_step_def)
        from handle_tool_calls_cases [of env tid tcs step ?s2] show ?thesis
          unfolding eq by simp blast
      qed
    qed
  qed
qed

section \<open>The loop over the steps\<close>

lemma for_steps_cost_tracker:
  assumes "current_query (cost_tracker s) = Some l"
  shows "queries (cost_tracker (snd (snd (for_steps env self tid ns k s)))) =
           queries (cost_tracker s) \<and>
         (\<exists>l'. current_query (cost_tracker (snd (snd (for_steps env self tid ns k s)))) = Some l' \<and>
               query l' = query l)"
  using assms
proof (induction ns arbitrary: k s l)
  case Nil
  then show ?case by simp
next
  case (Cons n ns)
  obtain sig s1 where st: "agent_step env self tid n s = (sig, s1)"
    by (cases "agent_step env self tid n s")
  from agent_step_cost_tracker [OF Cons.prems, of env self tid n] st
  obtain l1 where q1: "queries (cost_tracker s1) = queries (cost_tracker s)"
    and c1: "current_query (cost_tracker s1) = Some l1" and ql: "query l1 = query l"
    by auto
  show ?case
  proof (cases sig)
    case Continue
    from Cons.IH [OF c1, of n] show ?thesis
      by (simp add: st Continue q1 ql)
  qed (simp_all add: st q1 c1 ql)
qed

lemma for_steps_cases:
  "(\<exists>e. fst (for_steps env self tid ns k s) = Raise e) \<or>
   (fst (for_steps env self tid ns k s) = Continue \<and>
      final_answer (snd (snd (for_steps env self tid ns k s))) = final_answer s) \<or>
   fst (for_steps env self tid ns k s) = Break_answer \<or>
   (fst (for_steps env self tid ns k s) = Break_stagnation \<and>
      (\<exists>d rtext. is_looping (fst (check_output_stagnation env d rtext)) \<and>
         final_answer (snd (snd (for_steps env self tid ns k s))) =
           Some (''Agent stopped due to stagnation: '' @
                 message (fst (check_output_stagnation env d rtext)))))"
proof (induction ns arbitrary: k s)
  case Nil
  show ?case by simp
next
  case (Cons n ns)
  obtain sig s1 where st: "agent_step env self tid n s = (sig, s1)"
    by (cases "agent_step env self tid n s")
  show ?case
  proof (cases sig)
    case Continue
    with agent_step_cases [of env self tid n s] st
    have "final_answer s1 = final_answer s" by auto
    with Cons.IH [of n s1] show ?thesis
      by (simp add: st Continue)
  next
    case Break_answer
    then show ?thesis by (simp add: st)
  next
    case Break_stagnation
    with agent_step_cases [of env self tid n s] st show ?thesis
      by (simp add: st Break_stagnation)
  next
    case (Raise e)
    then show ?thesis by (simp add: st)
  qed
qed

text \<open>An iteration on a response that requests tools, with stagnation never flagged.\<close>

lemma handle_tool_calls_continue:
  assumes "list_all (\<lambda>tc. arguments_load env (function_arguments tc)) tcs"
    and "\<forall>d rtext. \<not> is_looping (fst (check_output_stagnation env d rtext))"
  shows "fst (handle_tool_calls env tid tcs step s) = Continue"
proof -
  obtain tasks s1 where d: "dispatch env tcs [] s = (tasks, s1)" by (cases "dispatch env tcs [] s")
  obtain results s2 where g: "gather env tasks s1 = (results, s2)" by (cases "gather env tasks s1")
  obtain sig step' s3 where r: "record_results env (zip tcs results) step s2 = (sig, step', s3)"
    by (cases "record_results env (zip tcs results) step s2") auto
  note h = handle_tool_calls_unfold [OF d g r, of tid]
  have tasks: "tasks = map task_of (filter (\<lambda>p. \<not> flagged p) (zip tcs (verdicts env (loop_detector s) tcs)))"
    using dispatch_tasks [of env tcs "[]" s] d by simp
  have "\<forall>t \<in> set tasks. arguments_load env (snd (snd t))"
  proof
    fix t assume "t \<in> set tasks"
    then obtain p where "p \<in> set (zip tcs (verdicts env (loop_detector s) tcs))" and "t = task_of p"
      by (auto simp: tasks)
    then have "fst p \<in> set tcs" and "snd (snd t) = function_arguments (fst p)"
      using set_zip_leftD [of "fst p" "snd p" tcs "verdicts env (loop_detector s) tcs"]
      by (simp_all add: task_of_def)
    with assms(1) show "arguments_load env (snd (snd t))"
      by (simp add: list_all_iff)
  qed
  moreover have "map (\<lambda>r. fst (snd r)) results = map (\<lambda>t. snd (snd t)) tasks"
    using gather_inputs [of env tasks s1] g by simp
  ultimately have "\<forall>x \<in> set (map (\<lambda>r. fst (snd r)) results). arguments_load env x"
    by simp
  then have res: "\<forall>r \<in> set results. arguments_load env (fst (snd r))"
    by simp
  have "list_all (\<lambda>z. arguments_load env (fst (snd (snd z)))) (zip tcs results)"
    unfolding list_all_iff
  proof
    fix z assume "z \<in> set (zip tcs results)"
    then have "snd z \<in> set results"
      using set_zip_rightD [of "fst z" "snd z" tcs results] by simp
    with res show "arguments_load env (fst (snd (snd z)))" by simp
  qed
  from record_results_loads [OF this, of step s2] r have "sig = Continue" by simp
  then show ?thesis
    by (simp add: h check_stagnation_never [OF assms(2)])
qed

lemma agent_step_continue:
  assumes "call_llm env self n (messages s) = Inr r" and "requests_tools env r"
    and "\<forall>d rtext. \<not> is_looping (fst (check_output_stagnation env d rtext))"
  shows "fst (agent_step env self tid n s) = Continue"
proof -
  from assms(2) have cd: "cost_defined r" by (simp add: requests_tools_def)
  from log_completion_defined [OF cd, of n False "cost_tracker s"]
  obtain ct where lc: "log_completion n r False (cost_tracker s) = Inr ct" by blast
  from new_AgentStep_defined [OF cd, of n]
  obtain step :: "'a AgentStep" where st: "new_AgentStep n r = Inr step" by blast
  from assms(2) obtain tcs where tl: "truthy_list (tool_calls r) = Some tcs"
    by (auto simp: requests_tools_def)
  then have "tool_calls r = Some tcs"
    by (auto simp: truthy_list_def split: option.splits list.splits)
  with assms(2) have "list_all (\<lambda>tc. arguments_load env (function_arguments tc)) tcs"
    by (simp add: requests_tools_def getattr_def)
  from handle_tool_calls_continue [OF this assms(3)] show ?thesis
    using assms(1) lc st tl by (simp add: agent_step_def)
qed

lemma for_steps_continue:
  assumes "\<forall>n \<in> set ns. \<forall>msgs. \<exists>r. call_llm env self n msgs = Inr r \<and> requests_tools env r"
    and "\<forall>d rtext. \<not> is_looping (fst (check_output_stagnation env d rtext))"
  shows "fst (for_steps env self tid ns k s) = Continue \<and>
         fst (snd (for_steps env self tid ns k s)) = last (k # ns) \<and>
         final_answer (snd (snd (for_steps env self tid ns k s))) = final_answer s \<and>
         logged_steps (tracer (snd (snd (for_steps env self tid ns k s)))) =
           logged_steps (tracer s) + length ns"
  using assms(1)
proof (induction ns arbitrary: k s)
  case Nil
  show ?case by simp
next
  case (Cons n ns)
  obtain sig s1 where st: "agent_step env self tid n s = (sig, s1)"
    by (cases "agent_step env self tid n s")
  from Cons.prems have "\<exists>r. call_llm env self n (messages s) = Inr r \<and> requests_tools env r"
    by simp
  then obtain r where "call_llm env self n (messages s) = Inr r" "requests_tools env r"
    by blast
  from agent_step_continue [OF this assms(2), of tid] st have sig: "sig = Continue" by simp
  with agent_step_cases [of env self tid n s] st
  obtain step where "final_answer s1 = final_answer s" "tracer s1 = tracer s @ [Log_step tid step]"
    by auto
  then have s1: "final_answer s1 = final_answer s" "logged_steps (tracer s1) = logged_steps (tracer s) + 1"
    by (simp_all add: logged_steps_def)
  from Cons.prems have "\<forall>n \<in> set ns. \<forall>msgs. \<exists>r. call_llm env self n msgs = Inr r \<and> requests_tools env r"
    by simp
  from Cons.IH [OF this, of n s1] show ?case
    by (simp add: st sig s1)
qed

lemma last_upto: "0 \<le> m \<Longrightarrow> last (0 # [1..m]) = m"
  by (cases "m = 0") (simp_all add: upto_rec2)

section \<open>\<^verbatim>\<open>run\<close> as a whole\<close>

lemma run_loop_start:
  "current_query (cost_tracker (start_run env self q s)) = Some (new_QueryCost q) \<and>
   queries (cost_tracker (start_run env self q s)) = queries (cost_tracker s) \<and>
   final_answer (start_run env self q s) = None \<and>
   tracer (start_run env self q s) =
     tracer s @ [Start_trace (agent_name self) q (agent_model self)]"
  by (simp add: start_run_def start_query_def)

lemma logged_steps_snoc:
  "logged_steps (evs @ [ev]) = logged_steps evs + (if is_Log_step ev then 1 else 0)"
  by (simp add: logged_steps_def)

text \<open>
  Claim C10. When \<^verbatim>\<open>run\<close> has returned, with either status, the agent's cost tracker has no
  active ledger, and its list of completed queries is the list it had before the call
  followed by exactly one ledger, the one that was opened for this run's query.
\<close>

theorem ledger_sealed_once:
  "current_query (cost_tracker (snd (run env self q s))) = None \<and>
   (\<exists>l. query l = q \<and>
        queries (cost_tracker (snd (run env self q s))) = queries (cost_tracker s) @ [l])"
proof -
  let ?tid = "start_trace env (agent_name self) q (agent_model self)"
  let ?s0 = "start_run env self q s"
  obtain sig k s1 where loop: "for_steps env self ?tid [1..max_steps self] 0 ?s0 = (sig, k, s1)"
    by (cases "for_steps env self ?tid [1..max_steps self] 0 ?s0") auto
  have "current_query (cost_tracker ?s0) = Some (new_QueryCost q)"
    using run_loop_start [of env self q s] by simp
  from for_steps_cost_tracker [OF this, of env self ?tid "[1..max_steps self]" 0] loop
  obtain l where qs: "queries (cost_tracker s1) = queries (cost_tracker s)"
    and cur: "current_query (cost_tracker s1) = Some l" and ql: "query l = q"
    using run_loop_start [of env self q s] by (auto simp: new_QueryCost_def)
  show ?thesis
    by (cases sig) (simp_all add: run_def run_loop_def loop Let_def end_query_def cur qs ql)
qed

text \<open>
  Claim C8, as amended. \<^verbatim>\<open>run\<close> returns a result of one of two shapes. When a fault \<open>e\<close>
  was raised in the loop, the result has the three keys \<^verbatim>\<open>answer\<close>, \<^verbatim>\<open>trace_id\<close>, \<^verbatim>\<open>status\<close>
  and no \<^verbatim>\<open>steps\<close>: the answer is \<^verbatim>\<open>Error: \<close> followed by the fault's description and the
  status is \<^verbatim>\<open>error\<close>. Otherwise it has the four keys \<^verbatim>\<open>answer\<close>, \<^verbatim>\<open>trace_id\<close>, \<^verbatim>\<open>steps\<close>,
  \<^verbatim>\<open>status\<close>, with the number of the last step and the status \<^verbatim>\<open>completed\<close>, and no fault
  was raised in the loop.
\<close>

theorem run_result_shape:
  "(\<exists>e. fst (run_loop env self q s) = Raise e \<and>
        fst (run env self q s) =
          [(''answer'', Text (''Error: '' @ e)),
           (''trace_id'', Text (start_trace env (agent_name self) q (agent_model self))),
           (''status'', Text ''error'')]) \<or>
   ((\<forall>e. fst (run_loop env self q s) \<noteq> Raise e) \<and>
    (\<exists>a. fst (run env self q s) =
          [(''answer'', Text a),
           (''trace_id'', Text (start_trace env (agent_name self) q (agent_model self))),
           (''steps'', Number (fst (snd (run_loop env self q s)))),
           (''status'', Text ''completed'')]))"
proof -
  obtain sig k s1 where loop: "run_loop env self q s = (sig, k, s1)"
    by (cases "run_loop env self q s") auto
  show ?thesis
    by (cases sig) (simp_all add: run_def loop Let_def)
qed

text \<open>
  Claim C9. When the loop ends because the range of step numbers is exhausted, the result
  has the status \<^verbatim>\<open>completed\<close> and the max-steps text as its answer; when it ends by the
  \<^verbatim>\<open>break\<close> on stagnation, the result has the status \<^verbatim>\<open>completed\<close> and as its answer the
  stagnation text with the message of a stagnation check that flagged. That is the status
  of a run that ends by a final answer, and the result has the same four keys: only the
  answer text tells the three apart.
\<close>

theorem synthetic_answers_completed:
  "(fst (run_loop env self q s) = Continue \<longrightarrow>
      fst (run env self q s) =
        [(''answer'', Text (max_steps_answer self)),
         (''trace_id'', Text (start_trace env (agent_name self) q (agent_model self))),
         (''steps'', Number (fst (snd (run_loop env self q s)))),
         (''status'', Text ''completed'')]) \<and>
   (fst (run_loop env self q s) = Break_stagnation \<longrightarrow>
      (\<exists>d rtext. is_looping (fst (check_output_stagnation env d rtext)) \<and>
         fst (run env self q s) =
           [(''answer'', Text (''Agent stopped due to stagnation: '' @
                              message (fst (check_output_stagnation env d rtext)))),
            (''trace_id'', Text (start_trace env (agent_name self) q (agent_model self))),
            (''steps'', Number (fst (snd (run_loop env self q s)))),
            (''status'', Text ''completed'')])) \<and>
   (fst (run_loop env self q s) = Break_answer \<longrightarrow>
      map_of (fst (run env self q s)) ''status'' = Some (Text ''completed''))"
proof -
  let ?tid = "start_trace env (agent_name self) q (agent_model self)"
  let ?s0 = "start_run env self q s"
  obtain sig k s1 where loop: "for_steps env self ?tid [1..max_steps self] 0 ?s0 = (sig, k, s1)"
    by (cases "for_steps env self ?tid [1..max_steps self] 0 ?s0") auto
  have f0: "final_answer ?s0 = None" by (simp add: start_run_def)
  note cases = for_steps_cases [of env self ?tid "[1..max_steps self]" 0 ?s0]
  show ?thesis
  proof (cases sig)
    case Continue
    with cases loop f0 have "final_answer s1 = None" by simp
    with Continue show ?thesis
      by (simp add: run_def run_loop_def loop Let_def)
  next
    case Break_answer
    then show ?thesis
      by (simp add: run_def run_loop_def loop Let_def)
  next
    case Break_stagnation
    with cases loop obtain d rtext where
      "is_looping (fst (check_output_stagnation env d rtext))"
      "final_answer s1 = Some (''Agent stopped due to stagnation: '' @
                 message (fst (check_output_stagnation env d rtext)))"
      by auto
    then have "is_looping (fst (check_output_stagnation env d rtext)) \<and>
         fst (run env self q s) =
           [(''answer'', Text (''Agent stopped due to stagnation: '' @
                              message (fst (check_output_stagnation env d rtext)))),
            (''trace_id'', Text ?tid),
            (''steps'', Number (fst (snd (run_loop env self q s)))),
            (''status'', Text ''completed'')]"
      by (simp add: run_def run_loop_def loop Let_def Break_stagnation)
    then have "\<exists>d rtext. is_looping (fst (check_output_stagnation env d rtext)) \<and>
         fst (run env self q s) =
           [(''answer'', Text (''Agent stopped due to stagnation: '' @
                              message (fst (check_output_stagnation env d rtext)))),
            (''trace_id'', Text ?tid),
            (''steps'', Number (fst (snd (run_loop env self q s)))),
            (''status'', Text ''completed'')]"
      by blast
    then show ?thesis
      by (simp add: run_loop_def loop Break_stagnation)
  next
    case (Raise e)
    then show ?thesis
      by (simp add: run_loop_def loop)
  qed
qed

text \<open>
  When nothing raises, a run whose every response requests tool calls does exhaust its
  steps. Let \<open>max_steps\<close> be non-negative, let the gateway answer every step from 1 to
  \<open>max_steps\<close> with a response that requests tool calls, has a defined cost and only
  argument texts that load, and let the stagnation check never flag. Then the run logs
  exactly \<open>max_steps\<close> steps and returns the max-steps answer with \<^verbatim>\<open>steps\<close> equal to
  \<open>max_steps\<close> and the status \<^verbatim>\<open>completed\<close>.
\<close>

theorem max_steps_exhausted:
  assumes "0 \<le> max_steps self"
    and "\<forall>n \<in> set [1..max_steps self]. \<forall>msgs. \<exists>r. call_llm env self n msgs = Inr r \<and> requests_tools env r"
    and "\<forall>d rtext. \<not> is_looping (fst (check_output_stagnation env d rtext))"
  shows "fst (run env self q s) =
           [(''answer'', Text (max_steps_answer self)),
            (''trace_id'', Text (start_trace env (agent_name self) q (agent_model self))),
            (''steps'', Number (max_steps self)),
            (''status'', Text ''completed'')] \<and>
         logged_steps (tracer (snd (run env self q s))) =
           logged_steps (tracer s) + nat (max_steps self)"
proof -
  let ?tid = "start_trace env (agent_name self) q (agent_model self)"
  let ?s0 = "start_run env self q s"
  obtain sig k s1 where loop: "for_steps env self ?tid [1..max_steps self] 0 ?s0 = (sig, k, s1)"
    by (cases "for_steps env self ?tid [1..max_steps self] 0 ?s0") auto
  from for_steps_continue [OF assms(2) assms(3), of ?tid 0 ?s0] loop
  have sig: "sig = Continue" and k: "k = last (0 # [1..max_steps self])"
    and fa: "final_answer s1 = final_answer ?s0"
    and lg: "logged_steps (tracer s1) = logged_steps (tracer ?s0) + length [1..max_steps self]"
    by simp_all
  have k': "k = max_steps self" using k last_upto [OF assms(1)] by simp
  have fa': "final_answer s1 = None" using fa by (simp add: start_run_def)
  have lg': "logged_steps (tracer s1) = logged_steps (tracer s) + nat (max_steps self)"
    using lg assms(1) by (simp add: start_run_def logged_steps_def)
  show ?thesis
    by (simp add: run_def run_loop_def loop sig k' fa' lg' Let_def logged_steps_snoc)
qed

section \<open>Runs on concrete collaborators\<close>

lemmas run_eval = run_def run_loop_def start_run_def agent_step_def call_llm_def
  handle_tool_calls_def gather_def execute_tool_def check_stagnation_def new_AgentStep_def
  fallback_cost_zero log_completion_def start_query_def end_query_def new_QueryCost_def
  new_CostTracker_def truthy_list_def initial_messages_def max_steps_answer_def
  loop_warning_def getattr_def Let_def upto.simps str_int_def str_nat.simps digit_char_def
  toy_env_def toy_agent_def fresh_state_def reply_def call_def toy_json_loads_def
  toy_registry_def repeat_detector_def stagnation_detector_def logged_steps_def

text \<open>
  Claim C8 as stated fails on a run whose gateway call fails in step 1: the result has the
  status \<^verbatim>\<open>error\<close> and no \<^verbatim>\<open>steps\<close> key.
\<close>

theorem error_result_has_no_steps:
  "fst (run (toy_env script_down None) (toy_agent 3) ''q'' fresh_state) =
     [(''answer'', Text ''Error: gateway down''), (''trace_id'', Text ''trace-1''),
      (''status'', Text ''error'')] \<and>
   map_of (fst (run (toy_env script_down None) (toy_agent 3) ''q'' fresh_state)) ''steps'' = None"
  by (simp add: run_eval script_down_def)

text \<open>
  Claim C2 fails on a step that requests three calls of which the detector flags the
  second. The two executed calls are \<^verbatim>\<open>call_1\<close> and \<^verbatim>\<open>call_3\<close>; the result of \<^verbatim>\<open>call_3\<close>, the
  text \<^verbatim>\<open>42\<close> of the tool \<^verbatim>\<open>lookup\<close>, is appended under the id \<^verbatim>\<open>call_2\<close> of the flagged
  call, and no message carries the id \<^verbatim>\<open>call_3\<close>.
\<close>

theorem result_under_flagged_call_id:
  "messages (snd (run (toy_env script_repeat None) (toy_agent 1) ''q'' fresh_state)) =
     [User_message ''q'',
      Assistant_message (Some ''working'')
        (Some [call ''call_1'' ''echo'' ''{}'', call ''call_2'' ''echo'' ''{}'',
               call ''call_3'' ''lookup'' ''{}'']),
      Tool_message ''call_2'' ''echo'' (warning_sign @ '' LOOP DETECTED: repeated call''),
      Tool_message ''call_1'' ''echo'' ''done'',
      Tool_message ''call_2'' ''lookup'' ''42''] \<and>
   registry_log (snd (run (toy_env script_repeat None) (toy_agent 1) ''q'' fresh_state)) =
     [call ''call_1'' ''echo'' ''{}'', call ''call_3'' ''lookup'' ''{}'']"
  by (simp add: run_eval script_repeat_def)

text \<open>
  Claim C3 fails on a step that requests two calls of which the first has arguments that
  are not JSON. Both calls are executed, the first giving an error text; then line 151
  parses the arguments of the first again, outside any handler of its own, and the run
  ends with the status \<^verbatim>\<open>error\<close> in its first step, which is never logged.
\<close>

theorem malformed_arguments_abort_run:
  "fst (run (toy_env script_malformed None) (toy_agent 3) ''q'' fresh_state) =
     [(''answer'', Text ''Error: Expecting value: line 1 column 1 (char 0)''),
      (''trace_id'', Text ''trace-1''), (''status'', Text ''error'')] \<and>
   registry_log (snd (run (toy_env script_malformed None) (toy_agent 3) ''q'' fresh_state)) =
     [call ''call_1'' ''echo'' ''not json'', call ''call_2'' ''echo'' ''{}''] \<and>
   logged_steps (tracer (snd (run (toy_env script_malformed None) (toy_agent 3) ''q''
     fresh_state))) = 0"
  by (simp add: run_eval script_malformed_def)

text \<open>
  Claim C4 fails on a first response that has no tool calls and whose content is \<^verbatim>\<open>None\<close>:
  the run ends after one step with the status \<^verbatim>\<open>completed\<close>, and its answer is the
  max-steps text, although \<open>max_steps\<close> is 10.
\<close>

theorem empty_content_gives_max_steps_answer:
  "fst (run (toy_env script_empty None) (toy_agent 10) ''q'' fresh_state) =
     [(''answer'', Text ''Agent reached max steps (10) without completing the task.''),
      (''trace_id'', Text ''trace-1''), (''steps'', Number 1),
      (''status'', Text ''completed'')]"
  by (simp add: run_eval script_empty_def)

text \<open>
  Claim C5 fails on a run with \<open>max_steps\<close> 2 in which every response of the gateway
  requests two tool calls, the first with arguments that are not JSON, and the stagnation
  check never flags. The defect is the one of claim C3: line 151 parses the arguments
  again outside any handler. The run ends in its first step with the status \<^verbatim>\<open>error\<close> and
  no \<^verbatim>\<open>steps\<close>, instead of the max-steps answer after two steps, and no step is logged.
\<close>

theorem tool_requests_end_in_error:
  "(\<forall>n msgs. \<exists>r. call_llm (toy_env script_malformed None) (toy_agent 2) n msgs = Inr r \<and>
       truthy_list (tool_calls r) \<noteq> None) \<and>
   (\<forall>d rtext. \<not> is_looping
       (fst (check_output_stagnation (toy_env script_malformed None) d rtext))) \<and>
   max_steps (toy_agent 2) = 2 \<and>
   fst (run (toy_env script_malformed None) (toy_agent 2) ''q'' fresh_state) =
     [(''answer'', Text ''Error: Expecting value: line 1 column 1 (char 0)''),
      (''trace_id'', Text ''trace-1''), (''status'', Text ''error'')] \<and>
   logged_steps (tracer (snd (run (toy_env script_malformed None) (toy_agent 2) ''q''
     fresh_state))) = 0"
proof -
  have "\<forall>n msgs. \<exists>r. call_llm (toy_env script_malformed None) (toy_agent 2) n msgs = Inr r \<and>
       truthy_list (tool_calls r) \<noteq> None"
    by (simp add: call_llm_def toy_env_def script_malformed_def reply_def truthy_list_def)
  moreover have "\<forall>d rtext. \<not> is_looping
       (fst (check_output_stagnation (toy_env script_malformed None) d rtext))"
    by (simp add: toy_env_def stagnation_detector_def)
  moreover have "max_steps (toy_agent 2) = 2"
    by (simp add: toy_agent_def)
  moreover have "fst (run (toy_env script_malformed None) (toy_agent 2) ''q'' fresh_state) =
     [(''answer'', Text ''Error: Expecting value: line 1 column 1 (char 0)''),
      (''trace_id'', Text ''trace-1''), (''status'', Text ''error'')]"
    by (simp add: run_eval script_malformed_def)
  moreover have "logged_steps (tracer (snd (run (toy_env script_malformed None) (toy_agent 2)
     ''q'' fresh_state))) = 0"
    by (simp add: run_eval script_malformed_def)
  ultimately show ?thesis by blast
qed

text \<open>
  The run of two steps, each requesting the call \<^verbatim>\<open>call_1\<close> with arguments that load
  (flagged as a repeat in the second step), with a stagnation check that never flags,
  exhausts its steps.
\<close>

theorem max_steps_exhausted_witness:
  "fst (run (toy_env script_busy None) (toy_agent 2) ''q'' fresh_state) =
     [(''answer'', Text ''Agent reached max steps (2) without completing the task.''),
      (''trace_id'', Text ''trace-1''), (''steps'', Number 2),
      (''status'', Text ''completed'')] \<and>
   logged_steps (tracer (snd (run (toy_env script_busy None) (toy_agent 2) ''q''
     fresh_state))) = 2"
proof -
  let ?env = "toy_env script_busy None"
  have h1: "0 \<le> max_steps (toy_agent 2)"
    by (simp add: toy_agent_def)
  have h2: "\<forall>n \<in> set [1..max_steps (toy_agent 2)]. \<forall>msgs.
              \<exists>r. call_llm ?env (toy_agent 2) n msgs = Inr r \<and> requests_tools ?env r"
    by (simp add: call_llm_def toy_env_def script_busy_def requests_tools_def reply_def
        call_def truthy_list_def getattr_def arguments_load_def toy_json_loads_def
        cost_defined_def fallback_cost_zero)
  have h3: "\<forall>d rtext. \<not> is_looping (fst (check_output_stagnation ?env d rtext))"
    by (simp add: toy_env_def stagnation_detector_def)
  from max_steps_exhausted [OF h1 h2 h3, of "''q''" fresh_state] show ?thesis
    by (simp add: max_steps_answer_def toy_agent_def toy_env_def fresh_state_def
        str_int_def str_nat.simps digit_char_def logged_steps_def)
qed

text \<open>
  The theorem of claim C9 on two runs: one that the stagnation check stops in its first
  step, and one that exhausts its two steps.
\<close>

theorem synthetic_answers_completed_witness:
  "fst (run_loop (toy_env script_busy (Some ''working'')) (toy_agent 5) ''q'' fresh_state) =
     Break_stagnation \<and>
   fst (run (toy_env script_busy (Some ''working'')) (toy_agent 5) ''q'' fresh_state) =
     [(''answer'', Text ''Agent stopped due to stagnation: no progress''),
      (''trace_id'', Text ''trace-1''), (''steps'', Number 1),
      (''status'', Text ''completed'')] \<and>
   fst (run_loop (toy_env script_busy None) (toy_agent 2) ''q'' fresh_state) = Continue \<and>
   fst (run (toy_env script_busy None) (toy_agent 2) ''q'' fresh_state) =
     [(''answer'', Text ''Agent reached max steps (2) without completing the task.''),
      (''trace_id'', Text ''trace-1''), (''steps'', Number 2),
      (''status'', Text ''completed'')]"
proof -
  let ?stale = "toy_env script_busy (Some ''working'')"
  let ?busy = "toy_env script_busy None"
  have s1: "run_loop ?stale (toy_agent 5) ''q'' fresh_state =
      (Break_stagnation, 1, snd (snd (run_loop ?stale (toy_agent 5) ''q'' fresh_state)))"
    by (simp add: run_eval script_busy_def)
  have b1: "run_loop ?busy (toy_agent 2) ''q'' fresh_state =
      (Continue, 2, snd (snd (run_loop ?busy (toy_agent 2) ''q'' fresh_state)))"
    by (simp add: run_eval script_busy_def)
  have s2: "fst (run_loop ?stale (toy_agent 5) ''q'' fresh_state) = Break_stagnation"
    and s3: "fst (snd (run_loop ?stale (toy_agent 5) ''q'' fresh_state)) = 1"
    using s1 by (metis fst_conv, metis fst_conv snd_conv)
  have b2: "fst (run_loop ?busy (toy_agent 2) ''q'' fresh_state) = Continue"
    and b3: "fst (snd (run_loop ?busy (toy_agent 2) ''q'' fresh_state)) = 2"
    using b1 by (metis fst_conv, metis fst_conv snd_conv)
  have msg: "\<And>d rtext. message (fst (check_output_stagnation ?stale d rtext)) = ''no progress''"
    by (simp add: toy_env_def stagnation_detector_def)
  have tid: "start_trace ?stale (agent_name (toy_agent 5)) ''q'' (agent_model (toy_agent 5)) =
      ''trace-1''"
    "start_trace ?busy (agent_name (toy_agent 2)) ''q'' (agent_model (toy_agent 2)) = ''trace-1''"
    by (simp_all add: toy_env_def)
  have ans: "max_steps_answer (toy_agent 2) =
      ''Agent reached max steps (2) without completing the task.''"
    by (simp add: max_steps_answer_def toy_agent_def str_int_def str_nat.simps digit_char_def)
  from synthetic_answers_completed [of ?stale "toy_agent 5" "''q''" fresh_state]
  have r1: "fst (run ?stale (toy_agent 5) ''q'' fresh_state) =
     [(''answer'', Text ''Agent stopped due to stagnation: no progress''),
      (''trace_id'', Text ''trace-1''), (''steps'', Number 1),
      (''status'', Text ''completed'')]"
    unfolding s2 s3 msg tid by simp
  from synthetic_answers_completed [of ?busy "toy_agent 2" "''q''" fresh_state]
  have r2: "fst (run ?busy (toy_agent 2) ''q'' fresh_state) =
     [(''answer'', Text ''Agent reached max steps (2) without completing the task.''),
      (''trace_id'', Text ''trace-1''), (''steps'', Number 2),
      (''status'', Text ''completed'')]"
    unfolding b2 b3 tid ans by simp
  from s2 r1 b2 r2 show ?thesis by simp
qed

section \<open>Tool faults, request order and the first answer\<close>

text \<open>
  A missing tool, a tool that raises and an argument text that does not load each give an
  error text as the result of \<^verbatim>\<open>_execute_tool\<close>, which never raises.
\<close>

lemma execute_tool_not_found:
  assumes "get_tool env nm = None"
  shows "execute_tool env tc nm args =
           (nm, args, ''Error: Tool '' @ apostrophe @ nm @ apostrophe @ '' not found'')"
  using assms by (simp add: execute_tool_def)

lemma execute_tool_raised:
  assumes "get_tool env nm = Some tool" and "json_loads env args = Inr v" and "tool v = Inl e"
  shows "execute_tool env tc nm args = (nm, args, ''Error executing '' @ nm @ '': '' @ e)"
  using assms by (simp add: execute_tool_def)

lemma execute_tool_malformed:
  assumes "get_tool env nm = Some tool" and "json_loads env args = Inl e"
  shows "execute_tool env tc nm args = (nm, args, ''Error executing '' @ nm @ '': '' @ e)"
  using assms by (simp add: execute_tool_def)

text \<open>
  When the detector flags none of the requested calls and every argument text loads, the
  step appends one tool message per requested call, in request order, each with the id of
  its own call.
\<close>

lemma verdicts_length: "length (verdicts env d tcs) = length tcs"
  by (induction tcs arbitrary: d) (simp_all add: split_def Let_def)

lemma record_results_aligned:
  assumes "list_all (\<lambda>tc. arguments_load env (function_arguments tc)) tcs"
  shows "messages (snd (snd (record_results env
            (zip tcs (map (\<lambda>tc. execute_tool env tc (function_name tc) (function_arguments tc)) tcs))
            step s))) =
         messages s @ map (result_message env) tcs"
  using assms
proof (induction tcs arbitrary: step s)
  case Nil
  show ?case by simp
next
  case (Cons tc tcs)
  let ?inp = "function_arguments tc"
  obtain out where ex: "execute_tool env tc (function_name tc) ?inp = (function_name tc, ?inp, out)"
    by (simp add: execute_tool_def Let_def)
  then have rm: "result_message env tc = Tool_message (call_id tc) (function_name tc) out"
    by (simp add: result_message_def)
  from Cons.prems have "arguments_load env ?inp"
    and rest: "list_all (\<lambda>tc. arguments_load env (function_arguments tc)) tcs"
    by simp_all
  have "\<exists>parsed.
    (if ?inp \<noteq> [] then map_sum id Parsed (json_loads env ?inp) else Inr Empty_dict) = Inr parsed"
  proof (cases "?inp = []")
    case True
    then show ?thesis by simp
  next
    case False
    with \<open>arguments_load env ?inp\<close> obtain v where "json_loads env ?inp = Inr v"
      by (cases "json_loads env ?inp") (auto simp: arguments_load_def)
    with False show ?thesis by simp
  qed
  then obtain parsed where p:
    "(if ?inp \<noteq> [] then map_sum id Parsed (json_loads env ?inp) else Inr Empty_dict) = Inr parsed"
    by blast
  have "record_results env
          (zip (tc # tcs) (map (\<lambda>tc. execute_tool env tc (function_name tc) (function_arguments tc)) (tc # tcs)))
          step s =
        record_results env
          (zip tcs (map (\<lambda>tc. execute_tool env tc (function_name tc) (function_arguments tc)) tcs))
          (step\<lparr>as_tool_calls := as_tool_calls step @
             [\<lparr>tool_name = function_name tc, tool_input = parsed, tool_output = out\<rparr>]\<rparr>)
          (s\<lparr>messages := messages s @ [Tool_message (call_id tc) (function_name tc) out]\<rparr>)"
    by (simp only: list.map zip_Cons_Cons ex record_results.simps p sum.case)
  then show ?case
    using Cons.IH [OF rest] by (simp add: rm)
qed


lemma dispatch_none_flagged:
  assumes "list_all (\<lambda>v. \<not> is_looping v) (verdicts env (loop_detector s) tcs)"
  shows "fst (dispatch env tcs tasks s) =
           tasks @ map (\<lambda>tc. (tc, function_name tc, function_arguments tc)) tcs \<and>
         messages (snd (dispatch env tcs tasks s)) = messages s"
  using assms
proof (induction tcs arbitrary: tasks s)
  case Nil
  show ?case by simp
next
  case (Cons tc tcs)
  obtain v d where c: "check_tool_call env (loop_detector s) (function_name tc) (function_arguments tc) = (v, d)"
    by (cases "check_tool_call env (loop_detector s) (function_name tc) (function_arguments tc)")
  with Cons.prems have nv: "\<not> is_looping v"
    and rest: "list_all (\<lambda>v. \<not> is_looping v) (verdicts env d tcs)"
    by simp_all
  from Cons.IH [of "s\<lparr>loop_detector := d\<rparr>" "tasks @ [(tc, function_name tc, function_arguments tc)]"] rest
  show ?case
    by (simp add: c nv Let_def)
qed

lemma results_in_request_order:
  assumes "list_all (\<lambda>v. \<not> is_looping v) (verdicts env (loop_detector s) tcs)"
    and "list_all (\<lambda>tc. arguments_load env (function_arguments tc)) tcs"
  shows "messages (snd (handle_tool_calls env tid tcs step s)) =
           messages s @ map (result_message env) tcs \<and>
         registry_log (snd (handle_tool_calls env tid tcs step s)) = registry_log s @ tcs"
proof -
  let ?exec = "\<lambda>tc. execute_tool env tc (function_name tc) (function_arguments tc)"
  obtain tasks s1 where d: "dispatch env tcs [] s = (tasks, s1)" by (cases "dispatch env tcs [] s")
  obtain results s2 where g: "gather env tasks s1 = (results, s2)" by (cases "gather env tasks s1")
  obtain sig step' s3 where r: "record_results env (zip tcs results) step s2 = (sig, step', s3)"
    by (cases "record_results env (zip tcs results) step s2") auto
  note h = handle_tool_calls_unfold [OF d g r, of tid]
  from dispatch_none_flagged [OF assms(1), of "[]"] d
  have tasks: "tasks = map (\<lambda>tc. (tc, function_name tc, function_arguments tc)) tcs"
    and m1: "messages s1 = messages s"
    by simp_all
  have r1: "registry_log s1 = registry_log s"
    using dispatch_frame [of env tcs "[]" s] d by simp
  from g have results: "results = map ?exec tcs"
    and s2: "s2 = s1\<lparr>registry_log := registry_log s1 @ tcs\<rparr>"
    by (simp_all add: gather_def tasks comp_def)
  from record_results_aligned [OF assms(2), of step s2] r
  have m3: "messages s3 = messages s2 @ map (result_message env) tcs"
    by (simp add: results)
  have r3: "registry_log s3 = registry_log s2"
    using record_results_frame [of env "zip tcs results" step s2] r by simp
  show ?thesis
    by (cases sig) (simp_all add: h check_stagnation_frame m3 r3 s2 m1 r1)
qed

text \<open>
  A first response without tool calls whose content is a text ends the run after one step,
  with that text as the answer.
\<close>

lemma first_answer_returned:
  assumes "1 \<le> max_steps self"
    and "call_llm env self 1 (initial_messages self q) = Inr r"
    and "truthy_list (tool_calls r) = None" and "content r = Some a" and "cost_defined r"
  shows "fst (run env self q s) =
           [(''answer'', Text a),
            (''trace_id'', Text (start_trace env (agent_name self) q (agent_model self))),
            (''steps'', Number 1),
            (''status'', Text ''completed'')]"
proof -
  let ?tid = "start_trace env (agent_name self) q (agent_model self)"
  let ?s0 = "start_run env self q s"
  have m0: "messages ?s0 = initial_messages self q" by (simp add: start_run_def)
  from log_completion_defined [OF assms(5), of 1 False "cost_tracker ?s0"]
  obtain ct where lc: "log_completion 1 r False (cost_tracker ?s0) = Inr ct" by blast
  from new_AgentStep_defined [OF assms(5), of 1]
  obtain step :: "'a AgentStep" where st: "new_AgentStep 1 r = Inr step" by blast
  have "fst (agent_step env self ?tid 1 ?s0) = Break_answer \<and>
        final_answer (snd (agent_step env self ?tid 1 ?s0)) = Some a"
    using assms(2-4) lc st by (simp add: agent_step_def m0)
  then obtain s1 where a1: "agent_step env self ?tid 1 ?s0 = (Break_answer, s1)"
    and f1: "final_answer s1 = Some a"
    by (cases "agent_step env self ?tid 1 ?s0") auto
  from assms(1) have "[1..max_steps self] = 1 # [2..max_steps self]"
    by (simp add: upto_rec1)
  then have "for_steps env self ?tid [1..max_steps self] 0 ?s0 = (Break_answer, 1, s1)"
    by (simp add: a1)
  then show ?thesis
    by (simp add: run_def run_loop_def Let_def f1)
qed

end
